theory Spec2Isabelle
  imports Main "HOL-Library.Sublist"
begin

section \<open>Strings and regular expressions as the services use them\<close>

text \<open>
  The services are TypeScript. A JavaScript string is modelled as a \<^typ>\<open>string\<close>; the
  model covers the code units below 256 (ASCII and Latin-1), which is where every
  character named by the source's regular expressions lives.

  The regular expressions of the source only quantify over single character classes
  (\<^verbatim>\<open>\d+\<close>, \<^verbatim>\<open>\s*\<close>, \<^verbatim>\<open>[^\n<]+\<close>, \<^verbatim>\<open>[\s\S]*?\<close>, ...), so the syntax below has
  a class repetition \<open>Rep\<close> (minimum count, greedy or lazy) instead of a general star.
  \<open>run\<close> is the backtracking matcher as a list of successes: all ways the expression
  can match a prefix of the input, in the order in which a backtracking engine tries
  them; the engine's answer is the head of that list.
\<close>

datatype cls = Digit | Space | AnyChar | Range char char | NoneOf "char list"

definition newline :: char where
  "newline = CHR 0x0A"

definition is_space :: "char \<Rightarrow> bool" where
  \<comment> \<open>\<^verbatim>\<open>\s\<close> and the characters \<^verbatim>\<open>trim()\<close> strips, below code unit 256:
      TAB, LF, VT, FF, CR, space, no-break space.\<close>
  "is_space c = (c \<in> set [CHR 0x09, CHR 0x0A, CHR 0x0B, CHR 0x0C, CHR 0x0D, CHR 0x20, CHR 0xA0])"

fun in_cls :: "cls \<Rightarrow> char \<Rightarrow> bool" where
  "in_cls Digit c = ((48::nat) \<le> of_char c \<and> of_char c \<le> (57::nat))"
| "in_cls Space c = is_space c"
| "in_cls AnyChar c = True"
| "in_cls (Range a b) c = ((of_char a :: nat) \<le> of_char c \<and> of_char c \<le> (of_char b :: nat))"
| "in_cls (NoneOf cs) c = (c \<notin> set cs)"

datatype re =
    Lit string
  | Chr cls
  | Rep cls nat bool
  | Seq re re
  | Alt re re
  | Opt re
  | Grp nat re
  | Ahead re

type_synonym caps = "(nat \<times> string) list"

fun run :: "re \<Rightarrow> string \<Rightarrow> caps \<Rightarrow> (string \<times> caps) list" where
  "run (Lit l) s c = (if prefix l s then [(drop (length l) s, c)] else [])"
| "run (Chr k) s c = (case s of [] \<Rightarrow> [] | x # xs \<Rightarrow> if in_cls k x then [(xs, c)] else [])"
| "run (Rep k lo greedy) s c =
     (let counts = [lo ..< Suc (length (takeWhile (in_cls k) s))]
      in map (\<lambda>i. (drop i s, c)) (if greedy then rev counts else counts))"
| "run (Seq a b) s c = concat (map (\<lambda>(s', c'). run b s' c') (run a s c))"
| "run (Alt a b) s c = run a s c @ run b s c"
| "run (Opt a) s c = run a s c @ [(s, c)]"
| "run (Grp n a) s c =
     map (\<lambda>(s', c'). (s', (n, take (length s - length s') s) # c')) (run a s c)"
| "run (Ahead a) s c = (if run a s c = [] then [] else [(s, c)])"

primrec cat :: "re list \<Rightarrow> re" where
  "cat [] = Lit []"
| "cat (r # rs) = Seq r (cat rs)"

definition match_at :: "re \<Rightarrow> string \<Rightarrow> (nat \<times> caps) option" where
  \<comment> \<open>The match starting at the head of the input: its length and its capture groups.\<close>
  "match_at r s =
     (case run r s [] of [] \<Rightarrow> None | (s', c) # _ \<Rightarrow> Some (length s - length s', c))"

record rmatch =
  index :: nat
  matched :: string
  groups :: caps

fun scan :: "re \<Rightarrow> nat \<Rightarrow> nat \<Rightarrow> string \<Rightarrow> rmatch list" where
  \<comment> \<open>The successive matches of a \<^verbatim>\<open>g\<close>-flag expression, as repeated \<^verbatim>\<open>exec\<close> (or
      \<^verbatim>\<open>match\<close>, \<^verbatim>\<open>replace\<close>) finds them: leftmost first, each search resuming at the end of
      the previous match. \<open>skip\<close> counts the characters still covered by that match.\<close>
  "scan r i skip [] = []"
| "scan r i skip (x # xs) =
     (if 0 < skip then scan r (Suc i) (skip - 1) xs
      else case match_at r (x # xs) of
             None \<Rightarrow> scan r (Suc i) 0 xs
           | Some (n, c) \<Rightarrow>
               \<lparr>index = i, matched = take n (x # xs), groups = c\<rparr> # scan r (Suc i) (n - 1) xs)"

definition exec_all :: "re \<Rightarrow> string \<Rightarrow> rmatch list" where
  "exec_all r s = scan r 0 0 s"

definition group :: "rmatch \<Rightarrow> nat \<Rightarrow> string option" where
  \<comment> \<open>\<^verbatim>\<open>match[n]\<close>: \<^verbatim>\<open>undefined\<close> (\<open>None\<close>) when the group took no part in the match.\<close>
  "group m n = map_of (groups m) n"

fun replace_all :: "re \<Rightarrow> string \<Rightarrow> nat \<Rightarrow> string \<Rightarrow> string" where
  \<comment> \<open>\<^verbatim>\<open>s.replace(/r/g, rep)\<close> for a replacement text without \<^verbatim>\<open>$\<close>, such as the empty one.\<close>
  "replace_all r rep skip [] = []"
| "replace_all r rep skip (x # xs) =
     (if 0 < skip then replace_all r rep (skip - 1) xs
      else case match_at r (x # xs) of
             None \<Rightarrow> x # replace_all r rep 0 xs
           | Some (n, c) \<Rightarrow>
               (if n = 0 then rep @ x # replace_all r rep 0 xs
                else rep @ replace_all r rep (n - 1) xs))"

definition replace_start :: "re \<Rightarrow> string \<Rightarrow> string \<Rightarrow> string" where
  \<comment> \<open>\<^verbatim>\<open>s.replace(/^r/, rep)\<close>: without the \<^verbatim>\<open>g\<close> and \<^verbatim>\<open>m\<close> flags the anchored expression
      can only match at index 0.\<close>
  "replace_start r rep s = (case match_at r s of None \<Rightarrow> s | Some (n, c) \<Rightarrow> rep @ drop n s)"

primrec ngroups :: "re \<Rightarrow> nat" where
  \<comment> \<open>The number of capture groups of an expression.\<close>
  "ngroups (Lit l) = 0"
| "ngroups (Chr k) = 0"
| "ngroups (Rep k lo greedy) = 0"
| "ngroups (Seq a b) = ngroups a + ngroups b"
| "ngroups (Alt a b) = ngroups a + ngroups b"
| "ngroups (Opt a) = ngroups a"
| "ngroups (Grp n a) = Suc (ngroups a)"
| "ngroups (Ahead a) = ngroups a"

definition capture :: "caps \<Rightarrow> nat \<Rightarrow> string" where
  \<comment> \<open>A capture inside a replacement: a group that took no part gives the empty string.\<close>
  "capture c n = (case map_of c n of None \<Rightarrow> [] | Some v \<Rightarrow> v)"

definition digit_val :: "char \<Rightarrow> nat" where
  "digit_val c = of_char c - 48"

fun expand :: "nat \<Rightarrow> caps \<Rightarrow> string \<Rightarrow> string \<Rightarrow> string \<Rightarrow> string \<Rightarrow> string" where
  \<comment> \<open>The replacement text of \<^verbatim>\<open>String.prototype.replace\<close> for one match, from the
      replacement pattern: \<^verbatim>\<open>$$\<close> is a dollar sign, \<^verbatim>\<open>$&\<close> the matched text, \<^verbatim>\<open>$`\<close> the text
      before the match, \<^verbatim>\<open>$'\<close> the text after it, \<^verbatim>\<open>$n\<close> and \<^verbatim>\<open>$nn\<close> the capture of that number
      when it lies between 1 and the number \<open>m\<close> of groups of the expression (two digits are
      tried first); any other dollar sign stands for itself (the expressions here have no
      named groups).\<close>
  "expand m c mt bf af [] = []"
| "expand m c mt bf af [x] = [x]"
| "expand m c mt bf af (x # y # r) =
     (if x \<noteq> CHR ''$'' then x # expand m c mt bf af (y # r)
      else if y = CHR ''$'' then CHR ''$'' # expand m c mt bf af r
      else if y = CHR ''&'' then mt @ expand m c mt bf af r
      else if y = CHR 0x60 then bf @ expand m c mt bf af r
      else if y = CHR 0x27 then af @ expand m c mt bf af r
      else if in_cls Digit y then
        (case r of
           [] \<Rightarrow> if 1 \<le> digit_val y \<and> digit_val y \<le> m then capture c (digit_val y)
                 else x # expand m c mt bf af [y]
         | z # r' \<Rightarrow>
             if in_cls Digit z \<and> 1 \<le> 10 * digit_val y + digit_val z
                \<and> 10 * digit_val y + digit_val z \<le> m
             then capture c (10 * digit_val y + digit_val z) @ expand m c mt bf af r'
             else if 1 \<le> digit_val y \<and> digit_val y \<le> m
             then capture c (digit_val y) @ expand m c mt bf af (z # r')
             else x # expand m c mt bf af (y # z # r'))
      else x # expand m c mt bf af (y # r))"

fun replace_js :: "re \<Rightarrow> string \<Rightarrow> nat \<Rightarrow> string \<Rightarrow> string \<Rightarrow> string" where
  \<comment> \<open>\<^verbatim>\<open>s.replace(/r/g, rep)\<close> for any replacement pattern \<open>rep\<close>. \<open>passed\<close> holds, reversed,
      the part of the subject already passed.\<close>
  "replace_js r rep skip passed [] = []"
| "replace_js r rep skip passed (x # xs) =
     (if 0 < skip then replace_js r rep (skip - 1) (x # passed) xs
      else case match_at r (x # xs) of
             None \<Rightarrow> x # replace_js r rep 0 (x # passed) xs
           | Some (n, c) \<Rightarrow>
               (let out = expand (ngroups r) c (take n (x # xs)) (rev passed) (drop n (x # xs)) rep
                in if n = 0 then out @ x # replace_js r rep 0 (x # passed) xs
                   else out @ replace_js r rep (n - 1) (x # passed) xs))"

definition trim :: "string \<Rightarrow> string" where
  "trim s = rev (dropWhile is_space (rev (dropWhile is_space s)))"

fun decimal :: "nat \<Rightarrow> string" where
  \<comment> \<open>A non-negative integer inside a template literal.\<close>
  "decimal n =
     (if n < 10 then [char_of (48 + n)] else decimal (n div 10) @ [char_of (48 + n mod 10)])"

definition toLowerCase :: "string \<Rightarrow> string" where
  "toLowerCase s =
     map (\<lambda>c. let n = (of_char c :: nat)
               in if (65 \<le> n \<and> n \<le> 90) \<or> (192 \<le> n \<and> n \<le> 222 \<and> n \<noteq> 215)
                  then char_of (n + 32) else c) s"

section \<open>GeminiService.extractImagePrompts\<close>

record image_prompt =
  prompt :: string
  placeholder :: string

definition promptRegex :: re where
  \<comment> \<open>\<^verbatim>\<open>/\[IMAGE_PROMPT_(\d+)\](?:\s*:\s*([^\n<]+)|(?:\s*<!--\s*Image:\s*([^-]+?)\s*-->))?/g\<close>\<close>
  "promptRegex =
     cat [Lit ''[IMAGE_PROMPT_'', Grp 1 (Rep Digit 1 True), Lit '']'',
          Opt (Alt (cat [Rep Space 0 True, Lit '':'', Rep Space 0 True,
                         Grp 2 (Rep (NoneOf [newline, CHR ''<'']) 1 True)])
                   (cat [Rep Space 0 True, Lit ''<!--'', Rep Space 0 True, Lit ''Image:'',
                         Rep Space 0 True, Grp 3 (Rep (NoneOf [CHR ''-'']) 1 False),
                         Rep Space 0 True, Lit ''-->'']))]"

definition h2Regex :: re where
  \<comment> \<open>\<^verbatim>\<open>/##\s+([^\n]+)/g\<close>\<close>
  "h2Regex = cat [Lit ''##'', Rep Space 1 True, Grp 1 (Rep (NoneOf [newline]) 1 True)]"

definition h2PrefixRegex :: re where
  \<comment> \<open>\<^verbatim>\<open>/^##\s+/\<close>\<close>
  "h2PrefixRegex = cat [Lit ''##'', Rep Space 1 True]"

definition js_or :: "string option \<Rightarrow> string option \<Rightarrow> string option" where
  \<comment> \<open>\<^verbatim>\<open>a || b\<close> on values that are a string or \<^verbatim>\<open>undefined\<close>: the empty string is falsy.\<close>
  "js_or a b = (case a of None \<Rightarrow> b | Some x \<Rightarrow> if x = [] then b else Some x)"

definition placeholderNum :: "rmatch \<Rightarrow> string" where
  \<comment> \<open>\<^verbatim>\<open>match[1]\<close> inside a template literal.\<close>
  "placeholderNum m = (case group m 1 of None \<Rightarrow> ''undefined'' | Some d \<Rightarrow> d)"

definition promptFor :: "string \<Rightarrow> rmatch \<Rightarrow> string" where
  "promptFor content m =
     (let explicit = map_option trim (js_or (group m 3) (group m 2))
      in case (case explicit of None \<Rightarrow> None | Some p \<Rightarrow> if p = [] then None else Some p) of
           Some p \<Rightarrow> p
         | None \<Rightarrow>
             (let contentBefore = take (index m) content;
                  h2Matches = map matched (exec_all h2Regex contentBefore)
              in if h2Matches \<noteq> []
                 then ''Illustration for: '' @ replace_start h2PrefixRegex [] (last h2Matches)
                 else ''Blog section illustration '' @ placeholderNum m))"

definition extractImagePrompts :: "string \<Rightarrow> image_prompt list" where
  "extractImagePrompts content =
     map (\<lambda>m. \<lparr>prompt = promptFor content m,
               placeholder = ''[IMAGE_PROMPT_'' @ placeholderNum m @ '']''\<rparr>)
         (exec_all promptRegex content)"

section \<open>PipelineService.executePipeline\<close>

text \<open>
  The pipeline talks to two collaborators, the generative-AI client and the store. What
  they answer is not decided by this code, so the model takes it from an environment
  \<open>env\<close>: one field per call, giving the value returned or the value thrown. A thrown
  value is kept as the two strings the source reads from it: its rendering inside a
  template literal and its \<^verbatim>\<open>message\<close>. URL slugs and the tables of categories, image
  records and components are not modelled; the calls that touch them are, since they can
  throw.
\<close>

record thrown =
  rendered :: string
  err_message :: string

definition newError :: "string \<Rightarrow> thrown" where
  \<comment> \<open>\<^verbatim>\<open>new Error(msg)\<close>\<close>
  "newError msg = \<lparr>rendered = ''Error: '' @ msg, err_message = msg\<rparr>"

datatype 'a outcome = Returns 'a | Throws thrown

datatype article_status = Draft | Processing | Review | Published

record h2_section =
  h2 :: string
  h3s :: "string list"

record article =
  article_id :: string
  title :: string
  content_markdown :: "string option"
  meta_description :: "string option"
  article_keywords :: "string list"
  h2_structure :: "h2_section list"
  status :: article_status
  thumbnail_url :: "string option"
  category_id :: "string option"
  author_id :: "string option"
  article_topic :: "string option"

record seo_data =
  seo_keywords :: "string list"
  h2Structure :: "h2_section list"
  metaDescription :: string

record article_content =
  ac_title :: string
  ac_content :: string

record component =
  component_type :: string
  config :: string

record progress_event =
  ev_topic :: "string option"
  ev_stage :: string
  ev_message :: string

datatype update_site =
  USeo | UWriting | UHumanized | UThumbnail | UVisual | UReviewed | UStatusReview | UStatusDraft

record env =
  suggestSlug :: "string \<Rightarrow> string outcome"
  createArticle :: "string \<Rightarrow> string option \<Rightarrow> string option \<Rightarrow> string outcome"
  assignCategory :: "string \<Rightarrow> string outcome"
  seoResearch :: "string \<Rightarrow> seo_data outcome"
  writeArticle :: "string \<Rightarrow> string list \<Rightarrow> h2_section list \<Rightarrow> article_content outcome"
  humanizeContent :: "string \<Rightarrow> string outcome"
  generateImage :: "nat \<Rightarrow> string \<Rightarrow> string option"
  uploadImage :: "string \<Rightarrow> string outcome"
  createArticleImage :: "string \<Rightarrow> nat \<Rightarrow> string outcome"
  updateImageUrl :: "string \<Rightarrow> string \<Rightarrow> thrown option"
  generateAltTags :: "string \<Rightarrow> string \<Rightarrow> string"
  generateInteractiveComponent :: "string \<Rightarrow> string \<Rightarrow> component option outcome"
  createComponent :: "component \<Rightarrow> thrown option"
  finalReviewAndRestructure :: "string \<Rightarrow> string \<Rightarrow> string outcome"
  updateFails :: "update_site \<Rightarrow> thrown option"

record stage_flags =
  seoResearchDone :: bool
  writingDone :: bool
  humanizingDone :: bool
  visualGenerationDone :: bool
  interactiveDone :: bool
  finalReviewDone :: bool

text \<open>
  The state of one run: \<open>db\<close> is the row of this run's article in the store (\<open>None\<close>
  before it is inserted); \<open>result_article\<close>, \<open>stages\<close> and \<open>errors\<close> are the fields of the
  \<^verbatim>\<open>PipelineResult\<close> under construction; \<open>seoData\<close> and \<open>articleContent\<close> are the local
  variables that outlive a stage; \<open>emitted\<close> are the \<^verbatim>\<open>pipeline.log\<close> events in order.
\<close>

record pstate =
  db :: "article option"
  result_article :: "article option"
  stages :: stage_flags
  errors :: "string list"
  seoData :: seo_data
  articleContent :: article_content
  emitted :: "progress_event list"

datatype flow = Normal pstate | Thrown thrown pstate

definition andThen :: "flow \<Rightarrow> (pstate \<Rightarrow> flow) \<Rightarrow> flow" where
  "andThen f g = (case f of Normal s \<Rightarrow> g s | Thrown e s \<Rightarrow> Thrown e s)"

definition init_pstate :: pstate where
  "init_pstate =
     \<lparr>db = None, result_article = None,
      stages = \<lparr>seoResearchDone = False, writingDone = False, humanizingDone = False,
                visualGenerationDone = False, interactiveDone = False, finalReviewDone = False\<rparr>,
      errors = [],
      seoData = \<lparr>seo_keywords = [], h2Structure = [], metaDescription = []\<rparr>,
      articleContent = \<lparr>ac_title = [], ac_content = []\<rparr>,
      emitted = []\<rparr>"

definition emit :: "string \<Rightarrow> string \<Rightarrow> string \<Rightarrow> pstate \<Rightarrow> pstate" where
  "emit tp stg msg s =
     s\<lparr>emitted := emitted s @ [\<lparr>ev_topic = Some tp, ev_stage = stg, ev_message = msg\<rparr>]\<rparr>"

definition pushError :: "string \<Rightarrow> pstate \<Rightarrow> pstate" where
  "pushError e s = s\<lparr>errors := errors s @ [e]\<rparr>"

definition noRow :: thrown where
  \<comment> \<open>What \<^verbatim>\<open>.single()\<close> reports when the update selects no row.\<close>
  "noRow = \<lparr>rendered = ''[object Object]'', err_message = ''no rows returned''\<rparr>"

definition updateArticle ::
  "env \<Rightarrow> update_site \<Rightarrow> (article \<Rightarrow> article) \<Rightarrow> pstate \<Rightarrow> thrown + article \<times> pstate" where
  \<comment> \<open>\<^verbatim>\<open>SupabaseService.updateArticle\<close>: throws the store's error, else returns the updated row.\<close>
  "updateArticle e site upd s =
     (case updateFails e site of
        Some err \<Rightarrow> Inl err
      | None \<Rightarrow>
          (case db s of
             None \<Rightarrow> Inl noRow
           | Some row \<Rightarrow> Inr (upd row, s\<lparr>db := Some (upd row)\<rparr>)))"

definition createAndSlug :: "env \<Rightarrow> string \<Rightarrow> string option \<Rightarrow> pstate \<Rightarrow> flow" where
  "createAndSlug e tp author s =
     (let s1 = emit tp ''seoResearch'' (''Initializing pipeline for: '' @ tp) s;
          s2 = emit tp ''seoResearch'' ''Suggesting SEO-friendly slug...'' s1;
          aiSlug = (case suggestSlug e tp of Returns x \<Rightarrow> Some x | Throws _ \<Rightarrow> None)
      in case createArticle e tp author aiSlug of
           Throws err \<Rightarrow> Thrown err s2
         | Returns new_id \<Rightarrow>
             (let row = \<lparr>article_id = new_id, title = take 500 tp, content_markdown = None,
                         meta_description = None, article_keywords = [], h2_structure = [],
                         status = Processing, thumbnail_url = None, category_id = None,
                         author_id = author, article_topic = Some tp\<rparr>
              in Normal (s2\<lparr>db := Some row, result_article := Some row\<rparr>)))"

definition stage0 :: "env \<Rightarrow> string \<Rightarrow> pstate \<Rightarrow> flow" where
  \<comment> \<open>Category assignment: four awaited calls in one \<^verbatim>\<open>try\<close>, taken together.\<close>
  "stage0 e tp s =
     (case assignCategory e tp of
        Returns cid \<Rightarrow> Normal (s\<lparr>db := map_option (\<lambda>a. a\<lparr>category_id := Some cid\<rparr>) (db s)\<rparr>)
      | Throws err \<Rightarrow> Normal (pushError (''Category assignment failed: '' @ rendered err) s))"

definition seoFallback :: "string \<Rightarrow> seo_data" where
  "seoFallback tp =
     \<lparr>seo_keywords = [tp],
      h2Structure = [\<lparr>h2 = ''Introduction'', h3s = []\<rparr>, \<lparr>h2 = ''Main Content'', h3s = []\<rparr>,
                     \<lparr>h2 = ''Conclusion'', h3s = []\<rparr>],
      metaDescription = ''Learn about '' @ tp\<rparr>"

definition stage1 :: "env \<Rightarrow> string \<Rightarrow> pstate \<Rightarrow> flow" where
  "stage1 e tp s =
     (let s1 = emit tp ''seoResearch'' ''Performing SEO research and keyword optimization...'' s;
          failed = (\<lambda>err. Normal ((pushError (''SEO Research failed: '' @ rendered err) s1)
                                   \<lparr>seoData := seoFallback tp\<rparr>))
      in case seoResearch e tp of
           Throws err \<Rightarrow> failed err
         | Returns d \<Rightarrow>
             (case updateArticle e USeo
                     (\<lambda>a. a\<lparr>article_keywords := seo_keywords d, h2_structure := h2Structure d,
                            meta_description := Some (metaDescription d)\<rparr>) s1 of
                Inl err \<Rightarrow> failed err
              | Inr (_, s2) \<Rightarrow>
                  Normal (s2\<lparr>seoData := d, stages := (stages s2)\<lparr>seoResearchDone := True\<rparr>\<rparr>)))"

definition stage2 :: "env \<Rightarrow> string \<Rightarrow> pstate \<Rightarrow> flow" where
  "stage2 e tp s =
     (let s1 = emit tp ''writing'' ''Writing comprehensive article content (1200+ words)...'' s;
          failed = (\<lambda>err. Thrown (newError ''Critical: Writing stage failed'')
                                   (pushError (''Writing failed: '' @ rendered err) s1))
      in case writeArticle e tp (seo_keywords (seoData s1)) (h2Structure (seoData s1)) of
           Throws err \<Rightarrow> failed err
         | Returns ac \<Rightarrow>
             (case updateArticle e UWriting
                     (\<lambda>a. a\<lparr>title := ac_title ac, content_markdown := Some (ac_content ac)\<rparr>) s1 of
                Inl err \<Rightarrow> failed err
              | Inr (_, s2) \<Rightarrow>
                  Normal (s2\<lparr>articleContent := ac, stages := (stages s2)\<lparr>writingDone := True\<rparr>\<rparr>)))"

definition stage3 :: "env \<Rightarrow> string \<Rightarrow> pstate \<Rightarrow> flow" where
  "stage3 e tp s =
     (let s1 = emit tp ''humanizing'' ''Applying human-like tone and reducing AI patterns...'' s;
          failed = (\<lambda>err. Normal (pushError (''Humanizing failed: '' @ rendered err) s1))
      in case humanizeContent e (ac_content (articleContent s1)) of
           Throws err \<Rightarrow> failed err
         | Returns humanizedContent \<Rightarrow>
             (case updateArticle e UHumanized
                     (\<lambda>a. a\<lparr>content_markdown := Some humanizedContent\<rparr>) s1 of
                Inl err \<Rightarrow> failed err
              | Inr (_, s2) \<Rightarrow>
                  Normal (s2\<lparr>articleContent := (articleContent s2)\<lparr>ac_content := humanizedContent\<rparr>,
                             stages := (stages s2)\<lparr>humanizingDone := True\<rparr>\<rparr>)))"

definition trailing :: "char \<Rightarrow> re" where
  \<comment> \<open>\<^verbatim>\<open>(?:\s*:\s*[^X\!]+|\s*<!--[\s\S]*?-->|\s*(?=[A-Z]))?\<close>, where \<^verbatim>\<open>X\<close> is the first
      character the colon branch excludes.\<close>
  "trailing stop =
     Opt (Alt (cat [Rep Space 0 True, Lit '':'', Rep Space 0 True,
                    Rep (NoneOf [stop, CHR ''!'']) 1 True])
         (Alt (cat [Rep Space 0 True, Lit ''<!--'', Rep AnyChar 0 False, Lit ''-->''])
              (cat [Rep Space 0 True, Ahead (Chr (Range CHR ''A'' CHR ''Z''))])))"

definition fullPlaceholderRegex :: "string \<Rightarrow> re" where
  \<comment> \<open>\<^verbatim>\<open>new RegExp(escapedPlaceholder + '(?:\\s*:\\s*[^\\n\\!]+|...)?', 'g')\<close>: the escaped
      placeholder matches the placeholder's own text; in the string literal \<^verbatim>\<open>\\n\<close> is the
      regular expression's \<^verbatim>\<open>\n\<close>.\<close>
  "fullPlaceholderRegex ph = Seq (Lit ph) (trailing newline)"

definition cleanupRegex :: re where
  \<comment> \<open>\<^verbatim>\<open>/\[IMAGE_PROMPT_\d+\](?:\s*:\s*[^n\!]+|\s*<!--[\s\S]*?-->|\s*(?=[A-Z]))?/g\<close>: in this
      literal the class is \<^verbatim>\<open>[^n\!]\<close>, the letter n.\<close>
  "cleanupRegex =
     cat [Lit ''[IMAGE_PROMPT_'', Rep Digit 1 True, Lit '']'', trailing CHR ''n'']"

definition cleanup :: "string \<Rightarrow> string" where
  "cleanup content = trim (replace_all cleanupRegex [] 0 content)"

definition imageMarkdown :: "string \<Rightarrow> string \<Rightarrow> string" where
  \<comment> \<open>The markdown image, which the source hands to \<^verbatim>\<open>replace\<close> as the replacement pattern.\<close>
  "imageMarkdown altTag imageUrl =
     [newline, newline] @ ''!['' @ altTag @ '']('' @ imageUrl @ '')'' @ [newline, newline]"

definition setContent :: "string \<Rightarrow> pstate \<Rightarrow> pstate" where
  "setContent c s = s\<lparr>articleContent := (articleContent s)\<lparr>ac_content := c\<rparr>\<rparr>"

definition thumbnail :: "env \<Rightarrow> string \<Rightarrow> pstate \<Rightarrow> pstate" where
  \<comment> \<open>The inner \<^verbatim>\<open>try\<close> swallows every failure.\<close>
  "thumbnail e tp s =
     (case generateImage e 0
             (''Clean, modern, minimalist thumbnail illustration for a blog article about: '' @ tp) of
        None \<Rightarrow> s
      | Some thumbBuffer \<Rightarrow>
          (case uploadImage e ''thumbnail.png'' of
             Throws _ \<Rightarrow> s
           | Returns thumbUrl \<Rightarrow>
               (case updateArticle e UThumbnail (\<lambda>a. a\<lparr>thumbnail_url := Some thumbUrl\<rparr>) s of
                  Inl _ \<Rightarrow> s
                | Inr (_, s') \<Rightarrow> s')))"

definition processImage :: "env \<Rightarrow> string \<Rightarrow> nat \<Rightarrow> image_prompt \<Rightarrow> string \<Rightarrow> pstate \<Rightarrow> pstate" where
  \<comment> \<open>The inner \<^verbatim>\<open>try\<close> of one loop iteration, after the image record \<open>rid\<close> was created.\<close>
  "processImage e tp i p rid s =
     (case generateImage e (Suc i) (prompt p) of
        None \<Rightarrow> s
      | Some imageBuffer \<Rightarrow>
          (case uploadImage e (''image-'' @ decimal (i + 1) @ ''.png'') of
             Throws _ \<Rightarrow> s
           | Returns imageUrl \<Rightarrow>
               (case updateImageUrl e rid imageUrl of
                  Some _ \<Rightarrow> s
                | None \<Rightarrow>
                    (let altTag = generateAltTags e (prompt p) tp
                     in setContent
                          (replace_js (fullPlaceholderRegex (placeholder p))
                             (imageMarkdown altTag imageUrl) 0 [] (ac_content (articleContent s)))
                          s))))"

fun processImages :: "env \<Rightarrow> string \<Rightarrow> nat \<Rightarrow> image_prompt list \<Rightarrow> pstate \<Rightarrow> flow" where
  \<comment> \<open>The \<^verbatim>\<open>for\<close> loop over the first \<^verbatim>\<open>Math.min(imagePrompts.length, 3)\<close> prompts, from index
      \<open>i\<close> on. A throw of \<^verbatim>\<open>createArticleImage\<close> is outside the inner \<^verbatim>\<open>try\<close> and leaves the loop.\<close>
  "processImages e tp i [] s = Normal s"
| "processImages e tp i (p # ps) s =
     (case createArticleImage e (prompt p) (i + 1) of
        Throws err \<Rightarrow> Thrown err s
      | Returns rid \<Rightarrow> processImages e tp (Suc i) ps (processImage e tp i p rid s))"

definition cleanupAndSave :: "env \<Rightarrow> pstate \<Rightarrow> flow" where
  "cleanupAndSave e s =
     (let s1 = setContent (cleanup (ac_content (articleContent s))) s
      in case updateArticle e UVisual
                (\<lambda>a. a\<lparr>content_markdown := Some (ac_content (articleContent s1))\<rparr>) s1 of
           Inl err \<Rightarrow> Thrown err s1
         | Inr (_, s2) \<Rightarrow> Normal (s2\<lparr>stages := (stages s2)\<lparr>visualGenerationDone := True\<rparr>\<rparr>))"

definition stage4 :: "env \<Rightarrow> string \<Rightarrow> pstate \<Rightarrow> flow" where
  "stage4 e tp s =
     (let s1 = thumbnail e tp s;
          s2 = emit tp ''visualGeneration'' ''Generating related image prompts and assets...'' s1;
          imagePrompts = extractImagePrompts (ac_content (articleContent s2))
      in case andThen (processImages e tp 0 (take 3 imagePrompts) s2) (cleanupAndSave e) of
           Normal s3 \<Rightarrow> Normal s3
         | Thrown err s3 \<Rightarrow>
             Normal (pushError (''Visual generation failed: '' @ rendered err) s3))"

definition stage5 :: "env \<Rightarrow> string \<Rightarrow> pstate \<Rightarrow> flow" where
  "stage5 e tp s =
     (let s1 = emit tp ''interactive'' ''Analyzing content for interactive opportunities...'' s;
          failed = (\<lambda>err. Normal (pushError (''Interactive component failed: '' @ rendered err) s1));
          finished = Normal (s1\<lparr>stages := (stages s1)\<lparr>interactiveDone := True\<rparr>\<rparr>)
      in case generateInteractiveComponent e tp (ac_content (articleContent s1)) of
           Throws err \<Rightarrow> failed err
         | Returns None \<Rightarrow> finished
         | Returns (Some widget) \<Rightarrow>
             (case createComponent e widget of Some err \<Rightarrow> failed err | None \<Rightarrow> finished))"

definition stage6 :: "env \<Rightarrow> string \<Rightarrow> pstate \<Rightarrow> flow" where
  "stage6 e tp s =
     (let s1 = emit tp ''finalReview'' ''Performing final quality check and restructuring...'' s;
          failed = (\<lambda>err. Normal (pushError (''Final review failed: '' @ rendered err) s1))
      in case finalReviewAndRestructure e (ac_content (articleContent s1)) tp of
           Throws err \<Rightarrow> failed err
         | Returns reviewedContent \<Rightarrow>
             (case updateArticle e UReviewed
                     (\<lambda>a. a\<lparr>content_markdown := Some reviewedContent\<rparr>) s1 of
                Inl err \<Rightarrow> failed err
              | Inr (_, s2) \<Rightarrow>
                  Normal ((setContent reviewedContent s2)
                            \<lparr>stages := (stages s2)\<lparr>finalReviewDone := True\<rparr>\<rparr>)))"

definition markReview :: "env \<Rightarrow> string \<Rightarrow> pstate \<Rightarrow> flow" where
  "markReview e tp s =
     (case updateArticle e UStatusReview (\<lambda>a. a\<lparr>status := Review\<rparr>) s of
        Inl err \<Rightarrow> Thrown err s
      | Inr (row, s1) \<Rightarrow>
          Normal (emit tp ''finalReview''
                    ''Pipeline completed successfully. Article is ready for preview.''
                    (s1\<lparr>result_article := Some row\<rparr>)))"

definition tryBody :: "env \<Rightarrow> string \<Rightarrow> string option \<Rightarrow> flow" where
  \<comment> \<open>The body of the outer \<^verbatim>\<open>try\<close>.\<close>
  "tryBody e tp author =
     andThen (andThen (andThen (andThen (andThen (andThen (andThen (andThen
       (createAndSlug e tp author init_pstate)
       (stage0 e tp)) (stage1 e tp)) (stage2 e tp)) (stage3 e tp)) (stage4 e tp))
       (stage5 e tp)) (stage6 e tp)) (markReview e tp)"

definition has_id :: "article option \<Rightarrow> bool" where
  \<comment> \<open>\<^verbatim>\<open>result.article?.id\<close> as a condition.\<close>
  "has_id a = (case a of None \<Rightarrow> False | Some row \<Rightarrow> article_id row \<noteq> [])"

definition executePipeline :: "env \<Rightarrow> string \<Rightarrow> string option \<Rightarrow> flow" where
  \<comment> \<open>\<open>Normal s\<close>: the promise resolves with the \<^verbatim>\<open>PipelineResult\<close> held in \<open>s\<close>;
      \<open>Thrown err s\<close>: it rejects, which only the update inside the \<^verbatim>\<open>catch\<close> can cause.\<close>
  "executePipeline e tp author =
     (case tryBody e tp author of
        Normal s \<Rightarrow> Normal s
      | Thrown err s \<Rightarrow>
          (if has_id (result_article s)
           then (case updateArticle e UStatusDraft (\<lambda>a. a\<lparr>status := Draft\<rparr>) s of
                   Inl err' \<Rightarrow> Thrown err' s
                 | Inr (_, s1) \<Rightarrow> Normal (pushError (''Pipeline failed: '' @ rendered err) s1))
           else Normal (pushError (''Pipeline failed: '' @ rendered err) s)))"

text \<open>
  What the environment decides about the first three stages, read off the stage
  functions: the identifier of the inserted row, the outline that reaches the writing
  stage, the error (if any) that makes the writing stage fail, and the entries that the
  category and research stages leave in \<^verbatim>\<open>errors\<close>.
\<close>

definition createdId :: "env \<Rightarrow> string \<Rightarrow> string option \<Rightarrow> string option" where
  "createdId e tp author =
     (case createArticle e tp author
             (case suggestSlug e tp of Returns x \<Rightarrow> Some x | Throws _ \<Rightarrow> None) of
        Returns new_id \<Rightarrow> Some new_id
      | Throws _ \<Rightarrow> None)"

definition seoError :: "env \<Rightarrow> string \<Rightarrow> thrown option" where
  "seoError e tp =
     (case seoResearch e tp of Throws err \<Rightarrow> Some err | Returns d \<Rightarrow> updateFails e USeo)"

definition seoUsed :: "env \<Rightarrow> string \<Rightarrow> seo_data" where
  "seoUsed e tp =
     (case seoResearch e tp of
        Throws _ \<Rightarrow> seoFallback tp
      | Returns d \<Rightarrow> (case updateFails e USeo of None \<Rightarrow> d | Some _ \<Rightarrow> seoFallback tp))"

definition writingError :: "env \<Rightarrow> string \<Rightarrow> thrown option" where
  "writingError e tp =
     (case writeArticle e tp (seo_keywords (seoUsed e tp)) (h2Structure (seoUsed e tp)) of
        Throws err \<Rightarrow> Some err
      | Returns ac \<Rightarrow> updateFails e UWriting)"

definition earlyErrors :: "env \<Rightarrow> string \<Rightarrow> string list" where
  "earlyErrors e tp =
     (case assignCategory e tp of
        Throws err \<Rightarrow> [''Category assignment failed: '' @ rendered err]
      | Returns _ \<Rightarrow> [])
     @ (case seoError e tp of
          Some err \<Rightarrow> [''SEO Research failed: '' @ rendered err]
        | None \<Rightarrow> [])"

definition final :: "flow \<Rightarrow> pstate" where
  "final f = (case f of Normal s \<Rightarrow> s | Thrown err s \<Rightarrow> s)"

definition stored_status :: "pstate \<Rightarrow> article_status option" where
  \<comment> \<open>The status of the run's Content Record in the store.\<close>
  "stored_status s = map_option status (db s)"

definition created :: "string \<Rightarrow> pstate \<Rightarrow> bool" where
  \<comment> \<open>The row \<open>i\<close> is in the store with status \<^verbatim>\<open>processing\<close>, and \<^verbatim>\<open>result.article\<close> is row \<open>i\<close>.\<close>
  "created i s =
     (map_option article_id (db s) = Some i \<and> stored_status s = Some Processing
      \<and> map_option article_id (result_article s) = Some i)"

definition lateStages :: "pstate \<Rightarrow> bool list" where
  \<comment> \<open>The flags of the writing stage and of the stages after it.\<close>
  "lateStages s =
     [writingDone (stages s), humanizingDone (stages s), visualGenerationDone (stages s),
      interactiveDone (stages s), finalReviewDone (stages s)]"

text \<open>
  A sample environment, for closed instances: every call succeeds; the writer returns a
  body with one placeholder and its colon annotation; no image is generated.
\<close>

definition sample_env :: env where
  "sample_env =
     \<lparr>suggestSlug = (\<lambda>tp. Returns ''t''),
      createArticle = (\<lambda>tp author slug. Returns ''a1''),
      assignCategory = (\<lambda>tp. Returns ''c1''),
      seoResearch = (\<lambda>tp. Returns \<lparr>seo_keywords = [''x''],
                                      h2Structure = [\<lparr>h2 = ''Views'', h3s = []\<rparr>],
                                      metaDescription = ''m''\<rparr>),
      writeArticle = (\<lambda>tp kws hs.
         Returns \<lparr>ac_title = ''Views'',
                  ac_content = ''## Views\<newline>[IMAGE_PROMPT_1]: A sunset over mountains''\<rparr>),
      humanizeContent = (\<lambda>c. Returns c),
      generateImage = (\<lambda>i p. None),
      uploadImage = (\<lambda>f. Returns (''https://img/'' @ f)),
      createArticleImage = (\<lambda>p n. Returns ''r''),
      updateImageUrl = (\<lambda>r u. None),
      generateAltTags = (\<lambda>p tp. ''alt''),
      generateInteractiveComponent = (\<lambda>tp c. Returns None),
      createComponent = (\<lambda>c. None),
      finalReviewAndRestructure = (\<lambda>c tp. Returns c),
      updateFails = (\<lambda>site. None)\<rparr>"

definition writing_fails_env :: env where
  \<comment> \<open>As \<open>sample_env\<close>, but the writer throws.\<close>
  "writing_fails_env = sample_env\<lparr>writeArticle := (\<lambda>tp kws hs. Throws (newError ''boom''))\<rparr>"

definition revert_fails_env :: env where
  \<comment> \<open>As \<open>writing_fails_env\<close>, and the store refuses the update to \<^verbatim>\<open>draft\<close>.\<close>
  "revert_fails_env =
     writing_fails_env\<lparr>updateFails := (\<lambda>site. if site = UStatusDraft
                                                then Some (newError ''store down'') else None)\<rparr>"

definition review_fails_env :: env where
  \<comment> \<open>As \<open>sample_env\<close>, but the store refuses the final update to \<^verbatim>\<open>review\<close>.\<close>
  "review_fails_env =
     sample_env\<lparr>updateFails := (\<lambda>site. if site = UStatusReview
                                         then Some (newError ''late'') else None)\<rparr>"

section \<open>PipelineController.streamProgress\<close>

text \<open>
  The observable returned by \<^verbatim>\<open>streamProgress\<close> is modelled by what one subscriber is sent,
  given the time of the call and the \<^verbatim>\<open>pipeline.log\<close> events put on the bus after it
  subscribed, each with the time at which it is forwarded.
\<close>

record message_data =
  msg_message :: string
  msg_stage :: string
  msg_timestamp :: string

definition connectedEvent :: "string \<Rightarrow> message_data" where
  "connectedEvent now =
     \<lparr>msg_message = ''Successfully connected to pipeline stream.'', msg_stage = ''System'',
      msg_timestamp = now\<rparr>"

definition topicMatches :: "string \<Rightarrow> progress_event \<Rightarrow> bool" where
  \<comment> \<open>\<^verbatim>\<open>event.topic?.toLowerCase().trim() === topic?.toLowerCase().trim()\<close>, for a route
      parameter \<^verbatim>\<open>topic\<close>, which is a string: an event without topic gives \<^verbatim>\<open>undefined\<close>
      on the left and never matches.\<close>
  "topicMatches tp ev =
     (case ev_topic ev of
        None \<Rightarrow> False
      | Some t \<Rightarrow> trim (toLowerCase t) = trim (toLowerCase tp))"

definition toMessage :: "string \<times> progress_event \<Rightarrow> message_data" where
  "toMessage tev =
     \<lparr>msg_message = ev_message (snd tev), msg_stage = ev_stage (snd tev),
      msg_timestamp = fst tev\<rparr>"

definition streamProgress :: "string \<Rightarrow> string \<Rightarrow> (string \<times> progress_event) list \<Rightarrow> message_data list" where
  "streamProgress tp now bus =
     connectedEvent now # map toMessage (filter (\<lambda>tev. topicMatches tp (snd tev)) bus)"

section \<open>AgentService: the scheduler\<close>

text \<open>
  \<^verbatim>\<open>SchedulerRegistry\<close> and \<^verbatim>\<open>CronJob\<close> are library classes. The model keeps the job objects
  ever constructed in a heap \<open>jobs\<close> (the position is the object's identity; \<open>running\<close> says
  whether its timer is armed) and the registry's map from names to job objects in
  \<open>registry\<close>. \<^verbatim>\<open>addCronJob\<close> throws on a name already present, \<^verbatim>\<open>deleteCronJob\<close> stops the job
  and removes the name, and throws on a name that is absent. Whether \<^verbatim>\<open>new CronJob\<close> accepts
  a cron expression is the library's decision: \<open>cronValid\<close> in the environment.
\<close>

record cron_job =
  cronTime :: string
  running :: bool

record sched =
  jobs :: "cron_job list"
  registry :: "(string \<times> nat) list"

record agent_config =
  interval_minutes :: "int option"
  is_active :: bool
  last_run_at :: "string option"

record config_response =
  cfg_data :: "agent_config option"
  cfg_error :: "string option"

record sched_env =
  loadConfig :: "config_response outcome"
  cronValid :: "string \<Rightarrow> bool"

datatype sched_result = Resolved sched | Rejected thrown sched

definition JOB_NAME :: string where
  "JOB_NAME = ''auto_article_generation''"

definition armed :: "sched \<Rightarrow> cron_job list" where
  \<comment> \<open>The timers that are armed: the job objects started and not stopped.\<close>
  "armed st = filter running (jobs st)"

definition stopJob :: "nat \<Rightarrow> cron_job list \<Rightarrow> cron_job list" where
  "stopJob ref js = (if ref < length js then js[ref := (js ! ref)\<lparr>running := False\<rparr>] else js)"

definition startJob :: "nat \<Rightarrow> cron_job list \<Rightarrow> cron_job list" where
  "startJob ref js = (if ref < length js then js[ref := (js ! ref)\<lparr>running := True\<rparr>] else js)"

definition deleteCronJob :: "string \<Rightarrow> sched \<Rightarrow> thrown + sched" where
  "deleteCronJob name st =
     (case map_of (registry st) name of
        None \<Rightarrow> Inl (newError (''No Cron Job was found with the given name ('' @ name @ '')''))
      | Some ref \<Rightarrow>
          Inr (st\<lparr>jobs := stopJob ref (jobs st),
                  registry := filter (\<lambda>entry. fst entry \<noteq> name) (registry st)\<rparr>))"

definition addCronJob :: "string \<Rightarrow> nat \<Rightarrow> sched \<Rightarrow> thrown + sched" where
  "addCronJob name ref st =
     (case map_of (registry st) name of
        Some _ \<Rightarrow> Inl (newError (''Cron Job with the given name ('' @ name @ '') already exists''))
      | None \<Rightarrow> Inr (st\<lparr>registry := registry st @ [(name, ref)]\<rparr>))"

definition newCronJob :: "sched_env \<Rightarrow> string \<Rightarrow> sched \<Rightarrow> thrown + nat \<times> sched" where
  "newCronJob e cronExp st =
     (if cronValid e cronExp
      then Inr (length (jobs st), st\<lparr>jobs := jobs st @ [\<lparr>cronTime = cronExp, running = False\<rparr>]\<rparr>)
      else Inl (newError (''invalid cron expression: '' @ cronExp)))"

definition stopCron :: "sched \<Rightarrow> sched" where
  \<comment> \<open>The \<^verbatim>\<open>try\<close> with the empty \<^verbatim>\<open>catch\<close>.\<close>
  "stopCron st =
     (if map_of (registry st) JOB_NAME \<noteq> None
      then (case deleteCronJob JOB_NAME st of Inl _ \<Rightarrow> st | Inr st' \<Rightarrow> st')
      else st)"

definition updateCron :: "sched_env \<Rightarrow> string \<Rightarrow> sched \<Rightarrow> sched_result" where
  "updateCron e cronExp st =
     (let st1 = stopCron st
      in case newCronJob e cronExp st1 of
           Inl err \<Rightarrow> Rejected err st1
         | Inr (job, st2) \<Rightarrow>
             (case addCronJob JOB_NAME job st2 of
                Inl err \<Rightarrow> Rejected err st2
              | Inr st3 \<Rightarrow> Resolved (st3\<lparr>jobs := startJob job (jobs st3)\<rparr>)))"

definition show_int :: "int \<Rightarrow> string" where
  \<comment> \<open>An integer inside a template literal.\<close>
  "show_int n = (if n < 0 then ''-'' @ decimal (nat (- n)) else decimal (nat n))"

definition intervalMins :: "agent_config \<Rightarrow> int" where
  \<comment> \<open>\<^verbatim>\<open>config.interval_minutes || 120\<close>, for an integer or \<^verbatim>\<open>null\<close> column.\<close>
  "intervalMins cfg =
     (case interval_minutes cfg of None \<Rightarrow> 120 | Some n \<Rightarrow> if n = 0 then 120 else n)"

definition cronExpFor :: "int \<Rightarrow> string" where
  "cronExpFor mins =
     (if mins < 60 then ''0 */'' @ show_int mins @ '' * * * *''
      else ''0 0 */'' @ show_int (mins div 60) @ '' * * *'')"

text \<open>
  When an armed job fires is decided by the cron library. Its expressions have the six
  fields second, minute, hour, day of month, month and day of week; a field \<^verbatim>\<open>*\<close> admits
  every value, a number admits that value, and \<^verbatim>\<open>*/k\<close> admits the values of the field's
  range that are reached from its start in steps of \<open>k\<close>: 0, k, 2k, ... The service only
  builds expressions whose last three fields are \<^verbatim>\<open>*\<close>; for these, \<open>cron_fires\<close> says
  whether the job fires at the second \<open>t\<close>, counted from a midnight of the job's time zone
  (without clock changes).
\<close>

datatype cron_field = AnyValue | Step nat | Exact nat

fun read_digits :: "nat \<Rightarrow> string \<Rightarrow> nat option" where
  "read_digits acc [] = Some acc"
| "read_digits acc (c # cs) =
     (if in_cls Digit c then read_digits (10 * acc + digit_val c) cs else None)"

definition parse_nat :: "string \<Rightarrow> nat option" where
  "parse_nat s = (if s = [] then None else read_digits 0 s)"

definition parse_field :: "string \<Rightarrow> cron_field option" where
  "parse_field f =
     (if f = ''*'' then Some AnyValue
      else if take 2 f = ''*/'' then map_option Step (parse_nat (drop 2 f))
      else map_option Exact (parse_nat f))"

fun field_admits :: "cron_field \<Rightarrow> nat \<Rightarrow> bool" where
  "field_admits AnyValue v = True"
| "field_admits (Step k) v = (0 < k \<and> v mod k = 0)"
| "field_admits (Exact n) v = (v = n)"

fun split_on :: "char \<Rightarrow> string \<Rightarrow> string list" where
  "split_on c [] = [[]]"
| "split_on c (x # xs) =
     (if x = c then [] # split_on c xs
      else (case split_on c xs of [] \<Rightarrow> [[x]] | w # ws \<Rightarrow> (x # w) # ws))"

definition cron_fires :: "string \<Rightarrow> nat \<Rightarrow> bool" where
  "cron_fires expr t =
     (case split_on CHR '' '' expr of
        [sec, minute, hour, day, month, weekday] \<Rightarrow>
          day = ''*'' \<and> month = ''*'' \<and> weekday = ''*''
          \<and> (case parse_field sec of None \<Rightarrow> False | Some f \<Rightarrow> field_admits f (t mod 60))
          \<and> (case parse_field minute of None \<Rightarrow> False
              | Some f \<Rightarrow> field_admits f (t div 60 mod 60))
          \<and> (case parse_field hour of None \<Rightarrow> False
              | Some f \<Rightarrow> field_admits f (t div 3600 mod 24))
      | _ \<Rightarrow> False)"

definition setupBody :: "sched_env \<Rightarrow> sched \<Rightarrow> sched_result" where
  \<comment> \<open>The body of the \<^verbatim>\<open>try\<close> in \<^verbatim>\<open>setupScheduler\<close>.\<close>
  "setupBody e st =
     (case loadConfig e of
        Throws err \<Rightarrow> Rejected err st
      | Returns resp \<Rightarrow>
          (case cfg_data resp of
             None \<Rightarrow> Resolved st
           | Some cfg \<Rightarrow>
               if cfg_error resp \<noteq> None then Resolved st
               else if \<not> is_active cfg then Resolved (stopCron st)
               else updateCron e (cronExpFor (intervalMins cfg)) st))"

definition setupScheduler :: "sched_env \<Rightarrow> sched \<Rightarrow> sched_result" where
  "setupScheduler e st =
     (case setupBody e st of
        Resolved st' \<Rightarrow> Resolved st'
      | Rejected err st' \<Rightarrow> Resolved st')"

definition after :: "sched_result \<Rightarrow> sched" where
  "after r = (case r of Resolved st \<Rightarrow> st | Rejected err st \<Rightarrow> st)"

definition empty_sched :: sched where
  \<comment> \<open>The registry of a fresh process, in which this service is the only one adding jobs.\<close>
  "empty_sched = \<lparr>jobs = [], registry = []\<rparr>"

primrec reconcileAll :: "sched_env list \<Rightarrow> sched \<Rightarrow> sched" where
  \<comment> \<open>Successive calls of \<^verbatim>\<open>setupScheduler\<close>, each under its own environment.\<close>
  "reconcileAll [] st = st"
| "reconcileAll (e # es) st = reconcileAll es (after (setupScheduler e st))"

definition tracked :: "sched \<Rightarrow> bool" where
  \<comment> \<open>Every armed timer is the job registered under \<open>JOB_NAME\<close>.\<close>
  "tracked st =
     list_all (\<lambda>(i, j). running j \<longrightarrow> map_of (registry st) JOB_NAME = Some i)
       (enumerate 0 (jobs st))"

section \<open>AgentService.executeAgentRun and AgentController.triggerAgent\<close>

text \<open>
  The calls on the raw store client (\<^verbatim>\<open>agent_runs\<close>, \<^verbatim>\<open>agent_config\<close>) answer with a pair of
  data and error and do not throw; apart from the insert, the source ignores the error.
  \<open>storeOk\<close> says for each such call whether the store carries it out. \<open>clock\<close> gives the
  successive readings of \<^verbatim>\<open>new Date().toISOString()\<close>.
\<close>

datatype run_status = Searching | Generating | Completed | Failed

record run_record =
  run_id :: string
  run_status_of :: run_status
  logs :: string
  run_topic :: "string option"
  run_article_id :: "string option"
  completed_at :: "string option"

datatype store_op = SelectLogs run_status | UpdateRun run_status | UpdateConfig

record agent_env =
  insertRun :: "string option"
  storeOk :: "store_op \<Rightarrow> bool"
  getAllArticleTitles :: "string list outcome"
  generateTopic :: "string list \<Rightarrow> string outcome"
  clock :: "nat \<Rightarrow> string"
  penv :: env

record agent_state =
  run_row :: "run_record option"
  agent_cfg :: agent_config
  ticks :: nat
  run_article :: "article option"

definition isTruthy :: "string option \<Rightarrow> bool" where
  "isTruthy v = (case v of None \<Rightarrow> False | Some x \<Rightarrow> x \<noteq> [])"

definition updateRunStatus ::
  "agent_env \<Rightarrow> run_status \<Rightarrow> string \<Rightarrow> string option \<Rightarrow> string option \<Rightarrow> agent_state \<Rightarrow> agent_state" where
  "updateRunStatus e st logEntry tp articleId s =
     (let current = (if storeOk e (SelectLogs st) then map_option logs (run_row s) else None);
          newLogs = (case current of None \<Rightarrow> [] | Some l \<Rightarrow> l) @ [newline]
                    @ ''['' @ clock e (ticks s) @ ''] '' @ logEntry;
          terminal = (st = Completed \<or> st = Failed);
          upd = (\<lambda>r. r\<lparr>run_status_of := st, logs := newLogs,
                        run_topic := (if isTruthy tp then tp else run_topic r),
                        run_article_id := (if isTruthy articleId then articleId else run_article_id r),
                        completed_at := (if terminal then Some (clock e (Suc (ticks s)))
                                         else completed_at r)\<rparr>)
      in s\<lparr>run_row := (if storeOk e (UpdateRun st) then map_option upd (run_row s) else run_row s),
           ticks := (if terminal then Suc (Suc (ticks s)) else Suc (ticks s))\<rparr>)"

definition brainstormTopic :: "agent_env \<Rightarrow> string outcome" where
  \<comment> \<open>\<open>generateTopic\<close> is the \<^verbatim>\<open>generateText\<close> call, whose instruction is built from the titles.\<close>
  "brainstormTopic e =
     (case getAllArticleTitles e of
        Throws err \<Rightarrow> Throws err
      | Returns existingTitles \<Rightarrow>
          (case generateTopic e existingTitles of
             Throws err \<Rightarrow> Throws err
           | Returns response \<Rightarrow> Returns (trim response)))"

fun join :: "string \<Rightarrow> string list \<Rightarrow> string" where
  "join sep [] = []"
| "join sep [x] = x"
| "join sep (x # y # ys) = x @ sep @ join sep (y # ys)"

definition updateLastRun :: "agent_env \<Rightarrow> agent_state \<Rightarrow> agent_state" where
  \<comment> \<open>\<^verbatim>\<open>.update({ last_run_at: ... }).eq('is_active', true)\<close> on the single configuration row.\<close>
  "updateLastRun e s =
     (s\<lparr>agent_cfg := (if storeOk e UpdateConfig \<and> is_active (agent_cfg s)
                       then (agent_cfg s)\<lparr>last_run_at := Some (clock e (ticks s))\<rparr>
                       else agent_cfg s),
        ticks := Suc (ticks s)\<rparr>)"

definition runFailed :: "agent_env \<Rightarrow> thrown \<Rightarrow> agent_state \<Rightarrow> agent_state" where
  \<comment> \<open>The \<^verbatim>\<open>catch\<close> of \<^verbatim>\<open>executeAgentRun\<close>.\<close>
  "runFailed e err s = updateRunStatus e Failed (''Error: '' @ err_message err) None None s"

definition finalize :: "agent_env \<Rightarrow> string \<Rightarrow> flow \<Rightarrow> agent_state \<Rightarrow> agent_state" where
  \<comment> \<open>From the settled promise of \<^verbatim>\<open>generateArticle\<close> on.\<close>
  "finalize e topicPrompt outcome s =
     (case outcome of
        Thrown err ps \<Rightarrow> runFailed e err (s\<lparr>run_article := db ps\<rparr>)
      | Normal ps \<Rightarrow>
          (let s1 = s\<lparr>run_article := db ps\<rparr>
           in if has_id (result_article ps)
              then updateLastRun e
                     (updateRunStatus e Completed ''Article generated successfully.''
                        (Some topicPrompt) (map_option article_id (result_article ps)) s1)
              else runFailed e
                     (newError (if join '', '' (errors ps) \<noteq> [] then join '', '' (errors ps)
                                else ''Generation failed without error message'')) s1))"

definition executeAgentRun :: "agent_env \<Rightarrow> agent_state \<Rightarrow> agent_state" where
  "executeAgentRun e s =
     (case insertRun e of
        None \<Rightarrow> s
      | Some rid \<Rightarrow>
          (let s1 = s\<lparr>run_row := Some \<lparr>run_id = rid, run_status_of = Searching,
                                       logs = ''Starting run...'', run_topic = None,
                                       run_article_id = None, completed_at = None\<rparr>\<rparr>;
               s2 = updateRunStatus e Searching ''Brainstorming unique tech topic...'' None None s1
           in case brainstormTopic e of
                Throws err \<Rightarrow> runFailed e err s2
              | Returns topicPrompt \<Rightarrow>
                  (let s3 = updateRunStatus e Generating (''Topic selected: '' @ topicPrompt)
                              (Some topicPrompt) None s2
                   in finalize e topicPrompt (executePipeline (penv e) topicPrompt None) s3)))"

record trigger_response =
  success :: bool
  resp_message :: string

definition triggerAgent ::
  "string option \<Rightarrow> string option \<Rightarrow> agent_env \<Rightarrow> agent_state
     \<Rightarrow> string list \<times> agent_state \<times> trigger_response" where
  \<comment> \<open>\<open>cronSecret\<close> is \<^verbatim>\<open>process.env.CRON_SECRET\<close>, \<open>authHeader\<close> the \<^verbatim>\<open>authorization\<close> header
      (\<open>None\<close> when absent). The first component is what the controller logs.\<close>
  "triggerAgent cronSecret authHeader e s =
     (let logged =
            (case cronSecret of
               None \<Rightarrow> []
             | Some secret \<Rightarrow>
                 if secret \<noteq> [] \<and> authHeader \<noteq> Some (''Bearer '' @ secret)
                 then [''Trigger request received without matching CRON_SECRET (could be manual admin trigger)'']
                 else [])
      in (logged, executeAgentRun e s,
          \<lparr>success = True, resp_message = ''Agent run triggered manually''\<rparr>))"

definition sample_agent_env :: "env \<Rightarrow> agent_env" where
  "sample_agent_env pe =
     \<lparr>insertRun = Some ''run1'', storeOk = (\<lambda>op. True), getAllArticleTitles = Returns [],
      generateTopic = (\<lambda>titles. Returns '' T ''), clock = (\<lambda>n. ''t'' @ decimal n), penv = pe\<rparr>"

definition sample_agent_state :: "bool \<Rightarrow> agent_state" where
  "sample_agent_state active =
     \<lparr>run_row = None,
      agent_cfg = \<lparr>interval_minutes = Some 30, is_active = active, last_run_at = None\<rparr>,
      ticks = 0, run_article = None\<rparr>"

section \<open>Properties of the placeholder extraction\<close>

lemma scan_index_ge: "m \<in> set (scan r i k s) \<Longrightarrow> i \<le> index m"
proof (induction s arbitrary: i k)
  case Nil
  then show ?case by simp
next
  case (Cons x xs)
  then show ?case
    by (fastforce split: if_splits option.splits prod.splits dest: Suc_leD)
qed

lemma scan_sorted: "sorted_wrt (<) (map index (scan r i k s))"
proof (induction s arbitrary: i k)
  case Nil
  then show ?case by simp
next
  case (Cons x xs)
  have "\<And>m j. m \<in> set (scan r (Suc i) j xs) \<Longrightarrow> i < index m"
    using scan_index_ge by fastforce
  with Cons show ?case
    by (auto split: option.splits prod.splits)
qed

lemma extractImagePrompts_order:
  "sorted_wrt (<) (map index (exec_all promptRegex c))
   \<and> map placeholder (extractImagePrompts c)
       = map (\<lambda>m. ''[IMAGE_PROMPT_'' @ placeholderNum m @ '']'') (exec_all promptRegex c)"
  by (simp add: exec_all_def scan_sorted extractImagePrompts_def comp_def)

text \<open>
  C4: the tokens are read as the source spells them, \<^verbatim>\<open>[IMAGE_PROMPT_n]\<close>. On the body of
  the claim, \<^verbatim>\<open>"## A\n[IMAGE_PROMPT_1]\n## B\n[IMAGE_PROMPT_2]: custom prompt"\<close>, the extraction
  yields the prompts \<^verbatim>\<open>["Illustration for: A", "custom prompt"]\<close> in that order. It does not
  always build the prompt of a token without annotation from the nearest preceding H2
  heading, which is what the claim says and what the comment in the source says
  (\<^verbatim>\<open>find the nearest H2 heading before this placeholder\<close>): the heading expression
  \<^verbatim>\<open>/##\s+([^\n]+)/g\<close> is not tied to the start of a line, so it also matches inside the
  \<^verbatim>\<open>###\<close> of an H3 heading. On \<^verbatim>\<open>"## A\n### Sub\n[IMAGE_PROMPT_1]"\<close> the nearest preceding H2
  heading is \<^verbatim>\<open>A\<close>, and the prompt returned is \<^verbatim>\<open>Illustration for: Sub\<close>.
\<close>

theorem extractImagePrompts_nearest_heading:
  "extractImagePrompts
     ''## A\<newline>[IMAGE_PROMPT_1]\<newline>## B\<newline>[IMAGE_PROMPT_2]: custom prompt''
     = [\<lparr>prompt = ''Illustration for: A'', placeholder = ''[IMAGE_PROMPT_1]''\<rparr>,
        \<lparr>prompt = ''custom prompt'', placeholder = ''[IMAGE_PROMPT_2]''\<rparr>]
   \<and> extractImagePrompts ''## A\<newline>### Sub\<newline>[IMAGE_PROMPT_1]''
     = [\<lparr>prompt = ''Illustration for: Sub'', placeholder = ''[IMAGE_PROMPT_1]''\<rparr>]
   \<and> map prompt (extractImagePrompts ''## A\<newline>### Sub\<newline>[IMAGE_PROMPT_1]'')
       \<noteq> [''Illustration for: A'']"
  by code_simp

text \<open>
  Further inputs on which the expressions of \<^verbatim>\<open>extractImagePrompts\<close> read the body in another
  way than its comments announce: two hashes in the middle of a line count as a heading; a
  comment annotation with a hyphen in it is not read, although an annotation is present; a
  colon with nothing after it on its line takes the next line as the prompt; and a token
  that occurs twice is listed twice, where the comment of the function speaks of unique
  prompts.
\<close>

lemma heading_inside_line:
  "extractImagePrompts ''## A\<newline>Use C## here\<newline>[IMAGE_PROMPT_1]''
     = [\<lparr>prompt = ''Illustration for: here'', placeholder = ''[IMAGE_PROMPT_1]''\<rparr>]"
  by code_simp

lemma comment_annotation_read:
  "extractImagePrompts ''## A\<newline>[IMAGE_PROMPT_1] <!-- Image: a cat -->''
     = [\<lparr>prompt = ''a cat'', placeholder = ''[IMAGE_PROMPT_1]''\<rparr>]"
  by code_simp

lemma hyphenated_comment_ignored:
  "extractImagePrompts ''## A\<newline>[IMAGE_PROMPT_1] <!-- Image: well-known cat -->''
     = [\<lparr>prompt = ''Illustration for: A'', placeholder = ''[IMAGE_PROMPT_1]''\<rparr>]"
  by code_simp

lemma blank_colon_run:
  "extractImagePrompts ''## A\<newline>[IMAGE_PROMPT_1]:\<newline>Next paragraph.''
     = [\<lparr>prompt = ''Next paragraph.'', placeholder = ''[IMAGE_PROMPT_1]''\<rparr>]"
  by code_simp

lemma repeated_token:
  "extractImagePrompts ''## A\<newline>[IMAGE_PROMPT_1]\<newline>[IMAGE_PROMPT_1]''
     = [\<lparr>prompt = ''Illustration for: A'', placeholder = ''[IMAGE_PROMPT_1]''\<rparr>,
        \<lparr>prompt = ''Illustration for: A'', placeholder = ''[IMAGE_PROMPT_1]''\<rparr>]"
  by code_simp

text \<open>
  The replacement text of \<^verbatim>\<open>String.replace\<close> is a pattern: \<^verbatim>\<open>$&\<close> stands for the match,
  \<^verbatim>\<open>$$\<close> for a dollar sign and \<^verbatim>\<open>$1\<close> for the first group, when the expression has one.
\<close>

lemma replace_js_patterns:
  "replace_js (Lit ''b'') ''[$&|$$|$1]'' 0 [] ''abc'' = ''a[b|$|$1]c''
   \<and> replace_js (Grp 1 (Lit ''b'')) ''<$1$1>'' 0 [] ''abcb'' = ''a<bb>c<bb>''"
  by code_simp

section \<open>Properties of the scheduler\<close>


lemma tracked_iff:
  "tracked st \<longleftrightarrow>
     (\<forall>i < length (jobs st). running (jobs st ! i) \<longrightarrow> map_of (registry st) JOB_NAME = Some i)"
  by (auto simp: tracked_def list_all_iff in_set_enumerate_eq)

lemma filter_at_most_one:
  assumes "\<forall>i < length xs. P (xs ! i) \<longrightarrow> i = r"
  shows "length (filter P xs) \<le> 1"
proof (cases "r < length xs")
  case True
  have split: "xs = take r xs @ xs ! r # drop (Suc r) xs"
    using True by (rule id_take_nth_drop)
  have a: "filter P (take r xs) = []"
    using assms by (auto simp: filter_empty_conv in_set_conv_nth)
  have b: "filter P (drop (Suc r) xs) = []"
  proof -
    have "\<not> P (xs ! (Suc r + i))" if "i < length xs - Suc r" for i
    proof
      assume "P (xs ! (Suc r + i))"
      moreover have "Suc r + i < length xs" using that by simp
      ultimately have "Suc r + i = r" using assms by blast
      then show False by simp
    qed
    then show ?thesis
      by (auto simp: filter_empty_conv in_set_conv_nth)
  qed
  have "filter P xs = filter P (take r xs) @ filter P [xs ! r] @ filter P (drop (Suc r) xs)"
    by (subst split) simp
  then show ?thesis using a b by simp
next
  case False
  then have "filter P xs = []"
    using assms by (auto simp: filter_empty_conv in_set_conv_nth)
  then show ?thesis by simp
qed

lemma tracked_armed_le1: "tracked st \<Longrightarrow> length (armed st) \<le> 1"
proof (cases "map_of (registry st) JOB_NAME")
  case None
  assume "tracked st"
  with None have "\<forall>i < length (jobs st). running (jobs st ! i) \<longrightarrow> i = 0"
    by (simp add: tracked_iff)
  then show ?thesis unfolding armed_def by (rule filter_at_most_one)
next
  case (Some r)
  assume "tracked st"
  with Some have "\<forall>i < length (jobs st). running (jobs st ! i) \<longrightarrow> i = r"
    by (auto simp add: tracked_iff)
  then show ?thesis unfolding armed_def by (rule filter_at_most_one)
qed

lemma map_of_filter_fst_neq: "map_of (filter (\<lambda>entry. fst entry \<noteq> k) xs) k = None"
  by (induction xs) auto

lemma stopCron_registry: "map_of (registry (stopCron st)) JOB_NAME = None"
  by (auto simp: stopCron_def deleteCronJob_def map_of_filter_fst_neq split: option.splits)

lemma stopJob_quiet:
  assumes "\<forall>i < length js. running (js ! i) \<longrightarrow> i = r"
  shows "filter running (stopJob r js) = []"
proof -
  have "\<not> running (stopJob r js ! i)" if "i < length (stopJob r js)" for i
    using that assms by (cases "i = r") (auto simp: stopJob_def split: if_splits)
  then show ?thesis
    by (auto simp: filter_empty_conv in_set_conv_nth)
qed

lemma stopCron_armed: "tracked st \<Longrightarrow> armed (stopCron st) = []"
proof (cases "map_of (registry st) JOB_NAME")
  case None
  assume "tracked st"
  with None have "\<forall>i < length (jobs st). \<not> running (jobs st ! i)"
    by (simp add: tracked_iff)
  then have "filter running (jobs st) = []"
    by (auto simp: filter_empty_conv in_set_conv_nth)
  with None show ?thesis by (simp add: stopCron_def armed_def)
next
  case (Some r)
  assume "tracked st"
  with Some have "\<forall>i < length (jobs st). running (jobs st ! i) \<longrightarrow> i = r"
    by (auto simp: tracked_iff)
  then have "filter running (stopJob r (jobs st)) = []" by (rule stopJob_quiet)
  with Some show ?thesis by (simp add: stopCron_def deleteCronJob_def armed_def)
qed


lemma quiet_tracked: "armed st = [] \<Longrightarrow> tracked st"
  by (auto simp: armed_def tracked_iff filter_empty_conv)

lemma updateCron_cases:
  assumes "tracked st"
  shows "(\<not> cronValid e x \<and> (\<exists>err. updateCron e x st = Rejected err (stopCron st)))
       \<or> (cronValid e x \<and>
           updateCron e x st =
             Resolved \<lparr>jobs = jobs (stopCron st) @ [\<lparr>cronTime = x, running = True\<rparr>],
                       registry = registry (stopCron st) @ [(JOB_NAME, length (jobs (stopCron st)))]\<rparr>)"
  by (auto simp: updateCron_def newCronJob_def addCronJob_def stopCron_registry startJob_def Let_def)

lemma armed_append_new:
  "armed st = [] \<Longrightarrow>
   armed \<lparr>jobs = jobs st @ [\<lparr>cronTime = x, running = True\<rparr>], registry = rg\<rparr>
     = [\<lparr>cronTime = x, running = True\<rparr>]"
  by (simp add: armed_def)

lemma tracked_append_new:
  "armed st = [] \<Longrightarrow> map_of (registry st) JOB_NAME = None \<Longrightarrow>
   tracked \<lparr>jobs = jobs st @ [\<lparr>cronTime = x, running = True\<rparr>],
            registry = registry st @ [(JOB_NAME, length (jobs st))]\<rparr>"
  by (auto simp: armed_def tracked_iff filter_empty_conv nth_append map_add_def split: if_splits)


declare decimal.simps [simp del]

lemma setupScheduler_resolves: "\<exists>st'. setupScheduler e st = Resolved st'"
  by (simp add: setupScheduler_def split: sched_result.splits)

lemma setupScheduler_active:
  assumes "loadConfig e = Returns resp" "cfg_data resp = Some cfg" "cfg_error resp = None"
    and "is_active cfg"
  shows "after (setupScheduler e st) = after (updateCron e (cronExpFor (intervalMins cfg)) st)"
  using assms by (simp add: setupScheduler_def setupBody_def after_def split: sched_result.splits)

lemma setupScheduler_inactive:
  assumes "loadConfig e = Returns resp" "cfg_data resp = Some cfg" "cfg_error resp = None"
    and "\<not> is_active cfg"
  shows "setupScheduler e st = Resolved (stopCron st)"
  using assms by (simp add: setupScheduler_def setupBody_def)

lemma setupScheduler_load_failed:
  assumes "(\<exists>err. loadConfig e = Throws err)
           \<or> (\<exists>resp. loadConfig e = Returns resp \<and> (cfg_data resp = None \<or> cfg_error resp \<noteq> None))"
  shows "setupScheduler e st = Resolved st"
  using assms by (auto simp: setupScheduler_def setupBody_def split: option.splits)

lemma updateCron_tracked:
  assumes "tracked st"
  shows "tracked (after (updateCron e x st))"
proof -
  have q: "armed (stopCron st) = []" using assms by (rule stopCron_armed)
  from updateCron_cases [OF assms, of e x] show ?thesis
  proof
    assume "\<not> cronValid e x \<and> (\<exists>err. updateCron e x st = Rejected err (stopCron st))"
    then show ?thesis using q by (auto simp: after_def quiet_tracked)
  next
    assume "cronValid e x \<and> updateCron e x st =
             Resolved \<lparr>jobs = jobs (stopCron st) @ [\<lparr>cronTime = x, running = True\<rparr>],
                       registry = registry (stopCron st) @ [(JOB_NAME, length (jobs (stopCron st)))]\<rparr>"
    then show ?thesis
      using tracked_append_new [OF q stopCron_registry] by (simp add: after_def)
  qed
qed

lemma setupScheduler_tracked:
  assumes "tracked st"
  shows "tracked (after (setupScheduler e st))"
proof (cases "loadConfig e")
  case (Throws err)
  then show ?thesis using assms by (simp add: setupScheduler_def setupBody_def after_def)
next
  case (Returns resp)
  show ?thesis
  proof (cases "cfg_data resp")
    case None
    with Returns show ?thesis using assms by (simp add: setupScheduler_def setupBody_def after_def)
  next
    case (Some cfg)
    show ?thesis
    proof (cases "cfg_error resp = None")
      case False
      with Returns Some show ?thesis
        using assms by (simp add: setupScheduler_def setupBody_def after_def)
    next
      case True
      show ?thesis
      proof (cases "is_active cfg")
        case True
        with Returns Some \<open>cfg_error resp = None\<close> show ?thesis
          using updateCron_tracked [OF assms] by (simp add: setupScheduler_active)
      next
        case False
        with Returns Some \<open>cfg_error resp = None\<close> show ?thesis
          using stopCron_armed [OF assms]
          by (simp add: setupScheduler_inactive after_def quiet_tracked)
      qed
    qed
  qed
qed

lemma reconcileAll_tracked: "tracked st \<Longrightarrow> tracked (reconcileAll es st)"
  by (induction es arbitrary: st) (auto simp: setupScheduler_tracked)

lemma tracked_empty: "tracked empty_sched"
  by (simp add: tracked_def empty_sched_def)

text \<open>
  C7: at most one scheduler timer is armed at any time. Starting from the empty registry,
  after any sequence of reconciliations at most one job is running. In every state in
  which the only running job is the one registered under the fixed name, a
  reconciliation keeps it so; \<^verbatim>\<open>stopCron\<close>, the first step of every re-arm, leaves no timer
  armed, so a successful re-arm leaves exactly the new one; and reconciling with an
  inactive configuration leaves no armed timer at all.
\<close>

theorem single_timer:
  "length (armed (reconcileAll es empty_sched)) \<le> 1
   \<and> (tracked st \<longrightarrow>
        tracked (after (setupScheduler e st))
        \<and> length (armed (after (setupScheduler e st))) \<le> 1
        \<and> armed (stopCron st) = []
        \<and> (\<forall>x st'. updateCron e x st = Resolved st' \<longrightarrow>
              armed st' = [\<lparr>cronTime = x, running = True\<rparr>])
        \<and> (\<forall>cfg. loadConfig e = Returns \<lparr>cfg_data = Some cfg, cfg_error = None\<rparr>
                    \<and> \<not> is_active cfg \<longrightarrow> armed (after (setupScheduler e st)) = []))"
proof -
  have a: "length (armed (reconcileAll es empty_sched)) \<le> 1"
    using reconcileAll_tracked [OF tracked_empty] by (rule tracked_armed_le1)
  have b: "armed st' = [\<lparr>cronTime = x, running = True\<rparr>]"
    if "tracked st" "updateCron e x st = Resolved st'" for x st'
    using updateCron_cases [OF that(1), of e x] that(2) armed_append_new [OF stopCron_armed [OF that(1)]]
    by auto
  have c: "armed (after (setupScheduler e st)) = []"
    if "tracked st" "loadConfig e = Returns \<lparr>cfg_data = Some cfg, cfg_error = None\<rparr>" "\<not> is_active cfg"
    for cfg
    using that stopCron_armed [OF that(1)]
      setupScheduler_inactive [of e "\<lparr>cfg_data = Some cfg, cfg_error = None\<rparr>" cfg st]
    by (simp add: after_def)
  show ?thesis
    using a b c setupScheduler_tracked tracked_armed_le1 stopCron_armed by blast
qed

theorem single_timer_witness:
  "tracked \<lparr>jobs = [\<lparr>cronTime = ''0 */30 * * * *'', running = True\<rparr>], registry = [(JOB_NAME, 0)]\<rparr>
   \<and> armed (after (setupScheduler
        \<lparr>loadConfig = Returns \<lparr>cfg_data = Some \<lparr>interval_minutes = Some 30, is_active = False,
                                                 last_run_at = None\<rparr>, cfg_error = None\<rparr>,
         cronValid = (\<lambda>x. True)\<rparr>
        \<lparr>jobs = [\<lparr>cronTime = ''0 */30 * * * *'', running = True\<rparr>], registry = [(JOB_NAME, 0)]\<rparr>)) = []
   \<and> updateCron \<lparr>loadConfig = Returns \<lparr>cfg_data = None, cfg_error = None\<rparr>, cronValid = (\<lambda>x. True)\<rparr>
        ''0 0 */2 * * *''
        \<lparr>jobs = [\<lparr>cronTime = ''0 */30 * * * *'', running = True\<rparr>], registry = [(JOB_NAME, 0)]\<rparr>
       = Resolved \<lparr>jobs = [\<lparr>cronTime = ''0 */30 * * * *'', running = False\<rparr>,
                           \<lparr>cronTime = ''0 0 */2 * * *'', running = True\<rparr>],
                   registry = [(JOB_NAME, 1)]\<rparr>
   \<and> armed \<lparr>jobs = [\<lparr>cronTime = ''0 */30 * * * *'', running = False\<rparr>,
                           \<lparr>cronTime = ''0 0 */2 * * *'', running = True\<rparr>],
                   registry = [(JOB_NAME, 1)]\<rparr> = [\<lparr>cronTime = ''0 0 */2 * * *'', running = True\<rparr>]"
proof -
  let ?st = "\<lparr>jobs = [\<lparr>cronTime = ''0 */30 * * * *'', running = True\<rparr>], registry = [(JOB_NAME, 0)]\<rparr>"
  let ?off = "\<lparr>loadConfig = Returns \<lparr>cfg_data = Some \<lparr>interval_minutes = Some 30, is_active = False,
                                                 last_run_at = None\<rparr>, cfg_error = None\<rparr>,
         cronValid = (\<lambda>x. True)\<rparr>"
  let ?on = "\<lparr>loadConfig = Returns \<lparr>cfg_data = None, cfg_error = None\<rparr>, cronValid = (\<lambda>x. True)\<rparr>"
  have t: "tracked ?st" by (simp add: tracked_def)
  have u: "updateCron ?on ''0 0 */2 * * *'' ?st
       = Resolved \<lparr>jobs = [\<lparr>cronTime = ''0 */30 * * * *'', running = False\<rparr>,
                           \<lparr>cronTime = ''0 0 */2 * * *'', running = True\<rparr>],
                   registry = [(JOB_NAME, 1)]\<rparr>"
    by (simp add: updateCron_def stopCron_def deleteCronJob_def newCronJob_def addCronJob_def
        stopJob_def startJob_def Let_def)
  from t u show ?thesis
    using single_timer [of "[]" ?st ?off] single_timer [of "[]" ?st ?on] by simp
qed

lemma cronExpFor_30: "cronExpFor 30 = ''0 */30 * * * *''" by code_simp

lemma cronExpFor_150: "cronExpFor 150 = ''0 0 */2 * * *''" by code_simp

lemma cronExpFor_120: "cronExpFor 120 = ''0 0 */2 * * *''" by code_simp

lemma setupScheduler_arms:
  assumes "tracked st"
    and "loadConfig e = Returns \<lparr>cfg_data = Some cfg, cfg_error = None\<rparr>"
    and "is_active cfg"
    and "cronValid e (cronExpFor (intervalMins cfg))"
  shows "armed (after (setupScheduler e st))
           = [\<lparr>cronTime = cronExpFor (intervalMins cfg), running = True\<rparr>]"
proof -
  have "after (setupScheduler e st) = after (updateCron e (cronExpFor (intervalMins cfg)) st)"
    using assms(2,3) by (simp add: setupScheduler_active)
  moreover have "updateCron e (cronExpFor (intervalMins cfg)) st =
      Resolved \<lparr>jobs = jobs (stopCron st) @ [\<lparr>cronTime = cronExpFor (intervalMins cfg), running = True\<rparr>],
                registry = registry (stopCron st) @ [(JOB_NAME, length (jobs (stopCron st)))]\<rparr>"
    using updateCron_cases [OF assms(1), of e "cronExpFor (intervalMins cfg)"] assms(4) by auto
  ultimately show ?thesis
    using armed_append_new [OF stopCron_armed [OF assms(1)]] by (simp add: after_def)
qed

lemma digit_char: "n < 10 \<Longrightarrow> in_cls Digit (char_of (48 + n)) \<and> digit_val (char_of (48 + n)) = n"
  by (simp add: digit_val_def)

lemma read_digits_snoc:
  "read_digits a (s @ [c]) =
     (case read_digits a s of
        None \<Rightarrow> None
      | Some v \<Rightarrow> if in_cls Digit c then Some (10 * v + digit_val c) else None)"
  by (induction s arbitrary: a) auto

lemma read_decimal: "read_digits 0 (decimal n) = Some n"
proof (induction n rule: decimal.induct)
  case (1 n)
  show ?case
  proof (cases "n < 10")
    case True
    then show ?thesis
      using digit_char [of n] by (subst decimal.simps) simp
  next
    case False
    have d: "n mod 10 < 10" by simp
    have "read_digits 0 (decimal (n div 10)) = Some (n div 10)"
      using 1 False by simp
    then show ?thesis
      using False digit_char [OF d]
      by (subst decimal.simps) (simp add: read_digits_snoc del: in_cls.simps)
  qed
qed

lemma decimal_nonempty: "decimal n \<noteq> []"
  by (subst decimal.simps) simp

lemma decimal_digits: "c \<in> set (decimal n) \<Longrightarrow> in_cls Digit c"
proof (induction n rule: decimal.induct)
  case (1 n)
  show ?case
  proof (cases "n < 10")
    case True
    then show ?thesis
      using 1(2) digit_char [of n] by (subst (asm) decimal.simps) simp
  next
    case False
    have d: "n mod 10 < 10" by simp
    show ?thesis
      using 1 False digit_char [OF d]
      by (subst (asm) (2) decimal.simps) (auto simp del: in_cls.simps)
  qed
qed

lemma parse_decimal: "parse_nat (decimal n) = Some n"
  by (simp add: parse_nat_def decimal_nonempty read_decimal)

lemma space_not_decimal: "CHR '' '' \<notin> set (decimal n)"
  using decimal_digits [of "CHR '' ''" n] by auto

lemma split_on_none: "c \<notin> set w \<Longrightarrow> split_on c w = [w]"
  by (induction w) auto

lemma split_on_first: "c \<notin> set w \<Longrightarrow> split_on c (w @ c # rest) = w # split_on c rest"
  by (induction w) auto

lemma parse_step: "parse_field (CHR ''*'' # CHR ''/'' # decimal n) = Some (Step n)"
  using decimal_nonempty [of n] by (simp add: parse_field_def parse_decimal)

lemma fires_minutes:
  "cron_fires (''0 */'' @ decimal n @ '' * * * *'') t
     \<longleftrightarrow> t mod 60 = 0 \<and> 0 < n \<and> t div 60 mod 60 mod n = 0"
proof -
  have a: "split_on CHR '' '' (''0 */'' @ decimal n @ '' * * * *'')
             = [''0'', ''*/'' @ decimal n, ''*'', ''*'', ''*'', ''*'']"
  proof -
    have e: "''0 */'' @ decimal n @ '' * * * *''
               = ''0'' @ CHR '' '' # ((''*/'' @ decimal n) @ CHR '' '' # ''* * * *'')"
      by simp
    have r: "split_on CHR '' '' ''* * * *'' = [''*'', ''*'', ''*'', ''*'']"
      by code_simp
    have n0: "CHR '' '' \<notin> set ''0''" by simp
    have n1: "CHR '' '' \<notin> set (''*/'' @ decimal n)"
      using space_not_decimal [of n] by simp
    show ?thesis
      unfolding e split_on_first [OF n0] split_on_first [OF n1] r by simp
  qed
  have z: "parse_field ''0'' = Some (Exact 0)" by code_simp
  have s: "parse_field ''*'' = Some AnyValue" by code_simp
  show ?thesis
    unfolding cron_fires_def a by (simp add: z s parse_step)
qed

lemma fires_hours:
  "cron_fires (''0 0 */'' @ decimal n @ '' * * *'') t
     \<longleftrightarrow> t mod 60 = 0 \<and> t div 60 mod 60 = 0 \<and> 0 < n \<and> t div 3600 mod 24 mod n = 0"
proof -
  have a: "split_on CHR '' '' (''0 0 */'' @ decimal n @ '' * * *'')
             = [''0'', ''0'', ''*/'' @ decimal n, ''*'', ''*'', ''*'']"
  proof -
    have e: "''0 0 */'' @ decimal n @ '' * * *''
               = ''0'' @ CHR '' '' # (''0'' @ CHR '' '' # ((''*/'' @ decimal n) @ CHR '' '' # ''* * *''))"
      by simp
    have r: "split_on CHR '' '' ''* * *'' = [''*'', ''*'', ''*'']"
      by code_simp
    have n0: "CHR '' '' \<notin> set ''0''" by simp
    have n1: "CHR '' '' \<notin> set (''*/'' @ decimal n)"
      using space_not_decimal [of n] by simp
    show ?thesis
      unfolding e split_on_first [OF n0] split_on_first [OF n1] r by simp
  qed
  have z: "parse_field ''0'' = Some (Exact 0)" by code_simp
  show ?thesis
    unfolding cron_fires_def a by (simp add: z parse_step)
qed

lemma every_n_minutes:
  assumes "n dvd 60" "0 < n"
  shows "(t mod 60 = 0 \<and> t div 60 mod 60 mod n = 0) \<longleftrightarrow> t mod (60 * n) = (0::nat)"
proof
  assume a: "t mod 60 = 0 \<and> t div 60 mod 60 mod n = 0"
  then obtain q where q: "t = 60 * q" by (auto simp: mod_eq_0_iff_dvd)
  have "q mod 60 mod n = q mod n" using assms(1) by (rule mod_mod_cancel)
  then have "q mod n = 0" using a q by simp
  then have "60 * q mod (60 * n) = 0" by (simp add: mult_mod_right [symmetric])
  then show "t mod (60 * n) = 0" using q by simp
next
  assume b: "t mod (60 * n) = 0"
  then have "60 * n dvd t" by (simp add: mod_eq_0_iff_dvd)
  then obtain k where k: "t = 60 * n * k" by (auto simp: dvd_def)
  then have "t = 60 * (n * k)" by simp
  then have "t mod 60 = 0" and "t div 60 = n * k" by simp_all
  moreover have "n * k mod 60 mod n = n * k mod n" using assms(1) by (rule mod_mod_cancel)
  ultimately show "t mod 60 = 0 \<and> t div 60 mod 60 mod n = 0" by simp
qed

lemma every_h_hours:
  assumes "h dvd 24" "0 < h"
  shows "(t mod 60 = 0 \<and> t div 60 mod 60 = 0 \<and> t div 3600 mod 24 mod h = 0)
           \<longleftrightarrow> t mod (3600 * h) = (0::nat)"
proof
  assume a: "t mod 60 = 0 \<and> t div 60 mod 60 = 0 \<and> t div 3600 mod 24 mod h = 0"
  then obtain q where q: "t = 60 * q" by (auto simp: mod_eq_0_iff_dvd)
  with a have "q mod 60 = 0" by simp
  then obtain p where p: "q = 60 * p" by (auto simp: mod_eq_0_iff_dvd)
  have t: "t = 3600 * p" using q p by simp
  have "p mod 24 mod h = p mod h" using assms(1) by (rule mod_mod_cancel)
  then have "p mod h = 0" using a t by simp
  then have "3600 * p mod (3600 * h) = 0" by (simp add: mult_mod_right [symmetric])
  then show "t mod (3600 * h) = 0" using t by simp
next
  assume b: "t mod (3600 * h) = 0"
  then have "3600 * h dvd t" by (simp add: mod_eq_0_iff_dvd)
  then obtain k where k: "t = 3600 * h * k" by (auto simp: dvd_def)
  then have t: "t = 3600 * (h * k)" by simp
  have t60: "t = 60 * (60 * (h * k))" using t by simp
  have "t mod 60 = 0" using t60 by simp
  moreover have "t div 60 = 60 * (h * k)" using t60 by simp
  moreover have "t div 3600 = h * k" using t by simp
  moreover have "h * k mod 24 mod h = h * k mod h" using assms(1) by (rule mod_mod_cancel)
  ultimately show "t mod 60 = 0 \<and> t div 60 mod 60 = 0 \<and> t div 3600 mod 24 mod h = 0" by simp
qed


lemma fires_every_minutes:
  assumes "0 < n" "n < 60" "n dvd 60"
  shows "cron_fires (cronExpFor n) t \<longleftrightarrow> t mod (60 * nat n) = 0"
proof -
  have x: "cronExpFor n = ''0 */'' @ decimal (nat n) @ '' * * * *''"
    using assms by (simp add: cronExpFor_def show_int_def)
  have d: "nat n dvd 60" "0 < nat n"
    using assms by (simp_all add: nat_dvd_iff)
  show ?thesis
    unfolding x fires_minutes using every_n_minutes [OF d, of t] d(2) by simp
qed

lemma fires_every_hours:
  assumes "60 \<le> n" "n div 60 dvd 24"
  shows "cron_fires (cronExpFor n) t \<longleftrightarrow> t mod (3600 * nat (n div 60)) = 0"
proof -
  have p: "0 < n div 60"
    using assms(1) by (simp add: pos_imp_zdiv_pos_iff)
  have x: "cronExpFor n = ''0 0 */'' @ decimal (nat (n div 60)) @ '' * * *''"
    using assms(1) p by (simp add: cronExpFor_def show_int_def)
  have d: "nat (n div 60) dvd 24" "0 < nat (n div 60)"
    using assms(2) p by (simp_all add: nat_dvd_iff)
  show ?thesis
    unfolding x fires_hours using every_h_hours [OF d, of t] d(2) by simp
qed

lemma step_45_uneven:
  "cron_fires (cronExpFor 45) 0 \<and> cron_fires (cronExpFor 45) 2700
   \<and> cron_fires (cronExpFor 45) 3600 \<and> \<not> cron_fires (cronExpFor 45) 5400"
  by code_simp

text \<open>
  C6, on the text of the claim: not every active configuration with an interval under 60
  minutes gets an every-N-minutes schedule. For the interval 0 the source falls back on 120
  minutes (\<^verbatim>\<open>config.interval_minutes || 120\<close>) and arms the every-2-hours schedule
  \<^verbatim>\<open>0 0 */2 * * *\<close>, not \<^verbatim>\<open>0 */0 * * * *\<close>.
\<close>

theorem cron_schedule_default_counterexample:
  "armed (after (setupScheduler
      \<lparr>loadConfig = Returns \<lparr>cfg_data = Some \<lparr>interval_minutes = Some 0, is_active = True,
                                               last_run_at = None\<rparr>, cfg_error = None\<rparr>,
       cronValid = (\<lambda>x. True)\<rparr> empty_sched))
     = [\<lparr>cronTime = ''0 0 */2 * * *'', running = True\<rparr>]
   \<and> ''0 0 */2 * * *'' \<noteq> ''0 */0 * * * *''"
  by code_simp

text \<open>
  C6, as amended: for an active configuration, read without error, whose cron expression
  the library accepts, reconciliation leaves exactly one armed timer, and its firing period
  is derived from \<^verbatim>\<open>interval_minutes\<close>: for a positive interval N under 60 that divides 60
  the timer fires exactly at the multiples of N minutes, so every N minutes; for an interval
  N of 60 or more whose whole hours floor(N/60) divide 24 it fires exactly at the multiples of
  floor(N/60) hours; an interval that is 0 or absent counts as 120 and fires every 2 hours.
  In particular 30 arms an every-30-minutes timer and 150 an every-2-hours timer. Times are
  counted in seconds from a midnight.
\<close>

theorem cron_schedule:
  assumes "tracked st"
    and "loadConfig e = Returns \<lparr>cfg_data = Some cfg, cfg_error = None\<rparr>"
    and "is_active cfg"
    and "cronValid e (cronExpFor (intervalMins cfg))"
  shows "armed (after (setupScheduler e st))
           = [\<lparr>cronTime = cronExpFor (intervalMins cfg), running = True\<rparr>]
     \<and> (\<forall>n. interval_minutes cfg = Some n \<and> 0 < n \<and> n < 60 \<and> n dvd 60 \<longrightarrow>
            (\<forall>t. cron_fires (cronExpFor (intervalMins cfg)) t \<longleftrightarrow> t mod (60 * nat n) = 0))
     \<and> (\<forall>n. interval_minutes cfg = Some n \<and> 60 \<le> n \<and> n div 60 dvd 24 \<longrightarrow>
            (\<forall>t. cron_fires (cronExpFor (intervalMins cfg)) t
                  \<longleftrightarrow> t mod (3600 * nat (n div 60)) = 0))
     \<and> (interval_minutes cfg = None \<or> interval_minutes cfg = Some 0 \<longrightarrow>
            (\<forall>t. cron_fires (cronExpFor (intervalMins cfg)) t \<longleftrightarrow> t mod 7200 = 0))
     \<and> (\<forall>t. cron_fires (cronExpFor 30) t \<longleftrightarrow> t mod 1800 = 0)
     \<and> (\<forall>t. cron_fires (cronExpFor 150) t \<longleftrightarrow> t mod 7200 = 0)"
proof -
  have a: "\<forall>n. interval_minutes cfg = Some n \<and> 0 < n \<and> n < 60 \<and> n dvd 60 \<longrightarrow>
            (\<forall>t. cron_fires (cronExpFor (intervalMins cfg)) t \<longleftrightarrow> t mod (60 * nat n) = 0)"
  proof (intro allI impI)
    fix n t
    assume h: "interval_minutes cfg = Some n \<and> 0 < n \<and> n < 60 \<and> n dvd 60"
    then have "intervalMins cfg = n" by (simp add: intervalMins_def)
    then show "cron_fires (cronExpFor (intervalMins cfg)) t \<longleftrightarrow> t mod (60 * nat n) = 0"
      using h fires_every_minutes [of n t] by simp
  qed
  have b: "\<forall>n. interval_minutes cfg = Some n \<and> 60 \<le> n \<and> n div 60 dvd 24 \<longrightarrow>
            (\<forall>t. cron_fires (cronExpFor (intervalMins cfg)) t
                  \<longleftrightarrow> t mod (3600 * nat (n div 60)) = 0)"
  proof (intro allI impI)
    fix n t
    assume h: "interval_minutes cfg = Some n \<and> 60 \<le> n \<and> n div 60 dvd 24"
    then have "intervalMins cfg = n" by (simp add: intervalMins_def)
    then show "cron_fires (cronExpFor (intervalMins cfg)) t
                 \<longleftrightarrow> t mod (3600 * nat (n div 60)) = 0"
      using h fires_every_hours [of n t] by simp
  qed
  have h2: "nat (120 div 60) = 2" "nat (150 div 60) = 2" "(60::int) \<le> 120" "(60::int) \<le> 150"
    "(120::int) div 60 dvd 24" "(150::int) div 60 dvd 24"
    by simp_all
  have h120: "cron_fires (cronExpFor 120) t \<longleftrightarrow> t mod 7200 = 0" for t
    using fires_every_hours [OF h2(3) h2(5), of t] unfolding h2(1) by simp
  have c: "interval_minutes cfg = None \<or> interval_minutes cfg = Some 0 \<longrightarrow>
            (\<forall>t. cron_fires (cronExpFor (intervalMins cfg)) t \<longleftrightarrow> t mod 7200 = 0)"
  proof (intro allI impI)
    fix t
    assume "interval_minutes cfg = None \<or> interval_minutes cfg = Some 0"
    then have "intervalMins cfg = 120" by (auto simp: intervalMins_def)
    then show "cron_fires (cronExpFor (intervalMins cfg)) t \<longleftrightarrow> t mod 7200 = 0"
      using h120 [of t] by simp
  qed
  have h30: "(0::int) < 30" "(30::int) < 60" "(30::int) dvd 60" "nat 30 = 30"
    by simp_all
  have d: "\<forall>t. cron_fires (cronExpFor 30) t \<longleftrightarrow> t mod 1800 = 0"
  proof
    fix t
    show "cron_fires (cronExpFor 30) t \<longleftrightarrow> t mod 1800 = 0"
      using fires_every_minutes [OF h30(1-3), of t] unfolding h30(4) by simp
  qed
  have f: "\<forall>t. cron_fires (cronExpFor 150) t \<longleftrightarrow> t mod 7200 = 0"
  proof
    fix t
    show "cron_fires (cronExpFor 150) t \<longleftrightarrow> t mod 7200 = 0"
      using fires_every_hours [OF h2(4) h2(6), of t] unfolding h2(2) by simp
  qed
  from setupScheduler_arms [OF assms] a b c d f show ?thesis
    by (intro conjI)
qed

theorem cron_schedule_witness:
  "armed (after (setupScheduler
      \<lparr>loadConfig = Returns \<lparr>cfg_data = Some \<lparr>interval_minutes = Some 30, is_active = True,
                                               last_run_at = None\<rparr>, cfg_error = None\<rparr>,
       cronValid = (\<lambda>x. True)\<rparr> empty_sched))
     = [\<lparr>cronTime = ''0 */30 * * * *'', running = True\<rparr>]
   \<and> (\<forall>t. cron_fires ''0 */30 * * * *'' t \<longleftrightarrow> t mod 1800 = 0)
   \<and> armed (after (setupScheduler
      \<lparr>loadConfig = Returns \<lparr>cfg_data = Some \<lparr>interval_minutes = Some 150, is_active = True,
                                               last_run_at = None\<rparr>, cfg_error = None\<rparr>,
       cronValid = (\<lambda>x. True)\<rparr> empty_sched))
     = [\<lparr>cronTime = ''0 0 */2 * * *'', running = True\<rparr>]
   \<and> (\<forall>t. cron_fires ''0 0 */2 * * *'' t \<longleftrightarrow> t mod 7200 = 0)
   \<and> armed (after (setupScheduler
      \<lparr>loadConfig = Returns \<lparr>cfg_data = Some \<lparr>interval_minutes = None, is_active = True,
                                               last_run_at = None\<rparr>, cfg_error = None\<rparr>,
       cronValid = (\<lambda>x. True)\<rparr> empty_sched))
     = [\<lparr>cronTime = ''0 0 */2 * * *'', running = True\<rparr>]"
proof -
  let ?c30 = "\<lparr>interval_minutes = Some 30, is_active = True, last_run_at = (None :: string option)\<rparr>"
  let ?c150 = "\<lparr>interval_minutes = Some 150, is_active = True, last_run_at = (None :: string option)\<rparr>"
  let ?cnone = "\<lparr>interval_minutes = None, is_active = True, last_run_at = (None :: string option)\<rparr>"
  let ?e = "\<lambda>c. \<lparr>loadConfig = Returns \<lparr>cfg_data = Some c, cfg_error = None\<rparr>,
                  cronValid = (\<lambda>x. True)\<rparr>"
  have i30: "cronExpFor (intervalMins ?c30) = ''0 */30 * * * *''" by code_simp
  have i150: "cronExpFor (intervalMins ?c150) = ''0 0 */2 * * *''" by code_simp
  have inone: "cronExpFor (intervalMins ?cnone) = ''0 0 */2 * * *''" by code_simp
  have w30: "armed (after (setupScheduler (?e ?c30) empty_sched))
               = [\<lparr>cronTime = cronExpFor (intervalMins ?c30), running = True\<rparr>]"
    by (rule cron_schedule [OF tracked_empty, of "?e ?c30" ?c30, THEN conjunct1]) simp_all
  have q30: "\<forall>t. cron_fires (cronExpFor (intervalMins ?c30)) t \<longleftrightarrow> t mod (60 * nat 30) = 0"
    by (rule cron_schedule [OF tracked_empty, of "?e ?c30" ?c30, THEN conjunct2, THEN conjunct1,
          THEN spec, THEN mp]) simp_all
  have p30: "\<forall>t. cron_fires ''0 */30 * * * *'' t \<longleftrightarrow> t mod 1800 = 0"
    using q30 unfolding i30 by simp
  have w150: "armed (after (setupScheduler (?e ?c150) empty_sched))
               = [\<lparr>cronTime = cronExpFor (intervalMins ?c150), running = True\<rparr>]"
    by (rule cron_schedule [OF tracked_empty, of "?e ?c150" ?c150, THEN conjunct1]) simp_all
  have q150: "\<forall>t. cron_fires (cronExpFor (intervalMins ?c150)) t
                     \<longleftrightarrow> t mod (3600 * nat (150 div 60)) = 0"
    by (rule cron_schedule [OF tracked_empty, of "?e ?c150" ?c150, THEN conjunct2, THEN conjunct2,
          THEN conjunct1, THEN spec, THEN mp]) simp_all
  have p150: "\<forall>t. cron_fires ''0 0 */2 * * *'' t \<longleftrightarrow> t mod 7200 = 0"
    using q150 unfolding i150 by simp
  have wnone: "armed (after (setupScheduler (?e ?cnone) empty_sched))
               = [\<lparr>cronTime = cronExpFor (intervalMins ?cnone), running = True\<rparr>]"
    by (rule cron_schedule [OF tracked_empty, of "?e ?cnone" ?cnone, THEN conjunct1]) simp_all
  from w30 [unfolded i30] p30 w150 [unfolded i150] p150 wnone [unfolded inone]
  show ?thesis by (intro conjI)
qed

text \<open>
  C8, on the text of the claim: a failed reconciliation does not always leave the armed
  timer intact. With the every-30-minutes timer armed, an active configuration whose
  interval is -5 gives the expression \<^verbatim>\<open>0 */-5 * * * *\<close>; when \<^verbatim>\<open>new CronJob\<close> rejects it,
  \<^verbatim>\<open>updateCron\<close> has already run \<^verbatim>\<open>stopCron\<close>, the exception is caught by \<^verbatim>\<open>setupScheduler\<close>,
  and no timer is armed afterwards.
\<close>

theorem reconcile_failure_counterexample:
  "tracked \<lparr>jobs = [\<lparr>cronTime = ''0 */30 * * * *'', running = True\<rparr>], registry = [(JOB_NAME, 0)]\<rparr>
   \<and> armed \<lparr>jobs = [\<lparr>cronTime = ''0 */30 * * * *'', running = True\<rparr>], registry = [(JOB_NAME, 0)]\<rparr>
       = [\<lparr>cronTime = ''0 */30 * * * *'', running = True\<rparr>]
   \<and> setupBody
        \<lparr>loadConfig = Returns \<lparr>cfg_data = Some \<lparr>interval_minutes = Some (- 5), is_active = True,
                                                 last_run_at = None\<rparr>, cfg_error = None\<rparr>,
         cronValid = (\<lambda>x. x \<noteq> ''0 */-5 * * * *'')\<rparr>
        \<lparr>jobs = [\<lparr>cronTime = ''0 */30 * * * *'', running = True\<rparr>], registry = [(JOB_NAME, 0)]\<rparr>
       = Rejected (newError ''invalid cron expression: 0 */-5 * * * *'')
           \<lparr>jobs = [\<lparr>cronTime = ''0 */30 * * * *'', running = False\<rparr>], registry = []\<rparr>
   \<and> armed (after (setupScheduler
        \<lparr>loadConfig = Returns \<lparr>cfg_data = Some \<lparr>interval_minutes = Some (- 5), is_active = True,
                                                 last_run_at = None\<rparr>, cfg_error = None\<rparr>,
         cronValid = (\<lambda>x. x \<noteq> ''0 */-5 * * * *'')\<rparr>
        \<lparr>jobs = [\<lparr>cronTime = ''0 */30 * * * *'', running = True\<rparr>], registry = [(JOB_NAME, 0)]\<rparr>))
       = []"
  by code_simp

text \<open>
  C8, as amended: \<^verbatim>\<open>setupScheduler\<close> never propagates a failure to its caller. When the
  configuration cannot be loaded (the call throws, or the store answers with an error or
  without a row), the timer state is left as it was. When arming fails after an active
  configuration was read, because the cron expression is rejected, the previous timer
  has already been disarmed and no timer is left armed.
\<close>

theorem reconcile_failure:
  "(\<exists>st'. setupScheduler e st = Resolved st')
   \<and> ((\<exists>err. loadConfig e = Throws err)
        \<or> (\<exists>resp. loadConfig e = Returns resp \<and> (cfg_data resp = None \<or> cfg_error resp \<noteq> None))
       \<longrightarrow> setupScheduler e st = Resolved st)
   \<and> (\<forall>cfg. tracked st \<and> loadConfig e = Returns \<lparr>cfg_data = Some cfg, cfg_error = None\<rparr>
             \<and> is_active cfg \<and> \<not> cronValid e (cronExpFor (intervalMins cfg))
       \<longrightarrow> setupScheduler e st = Resolved (stopCron st) \<and> armed (stopCron st) = [])"
proof -
  have c: "setupScheduler e st = Resolved (stopCron st) \<and> armed (stopCron st) = []"
    if "tracked st" "loadConfig e = Returns \<lparr>cfg_data = Some cfg, cfg_error = None\<rparr>"
       "is_active cfg" "\<not> cronValid e (cronExpFor (intervalMins cfg))" for cfg
  proof -
    have "\<exists>err. updateCron e (cronExpFor (intervalMins cfg)) st = Rejected err (stopCron st)"
      using updateCron_cases [OF that(1), of e "cronExpFor (intervalMins cfg)"] that(4) by auto
    then show ?thesis
      using that(1,2,3) stopCron_armed by (auto simp: setupScheduler_def setupBody_def)
  qed
  show ?thesis
    using setupScheduler_resolves setupScheduler_load_failed c by blast
qed

theorem reconcile_failure_witness:
  "setupScheduler \<lparr>loadConfig = Throws (newError ''fetch failed''), cronValid = (\<lambda>x. True)\<rparr>
      \<lparr>jobs = [\<lparr>cronTime = ''0 */30 * * * *'', running = True\<rparr>], registry = [(JOB_NAME, 0)]\<rparr>
     = Resolved \<lparr>jobs = [\<lparr>cronTime = ''0 */30 * * * *'', running = True\<rparr>],
                 registry = [(JOB_NAME, 0)]\<rparr>
   \<and> setupScheduler
        \<lparr>loadConfig = Returns \<lparr>cfg_data = Some \<lparr>interval_minutes = Some (- 5), is_active = True,
                                                 last_run_at = None\<rparr>, cfg_error = None\<rparr>,
         cronValid = (\<lambda>x. x \<noteq> ''0 */-5 * * * *'')\<rparr>
        \<lparr>jobs = [\<lparr>cronTime = ''0 */30 * * * *'', running = True\<rparr>], registry = [(JOB_NAME, 0)]\<rparr>
     = Resolved (stopCron
         \<lparr>jobs = [\<lparr>cronTime = ''0 */30 * * * *'', running = True\<rparr>], registry = [(JOB_NAME, 0)]\<rparr>)
   \<and> armed (stopCron
         \<lparr>jobs = [\<lparr>cronTime = ''0 */30 * * * *'', running = True\<rparr>], registry = [(JOB_NAME, 0)]\<rparr>)
     = []"
proof -
  let ?st = "\<lparr>jobs = [\<lparr>cronTime = ''0 */30 * * * *'', running = True\<rparr>], registry = [(JOB_NAME, 0)]\<rparr>"
  let ?cfg = "\<lparr>interval_minutes = Some (- 5), is_active = True, last_run_at = (None :: string option)\<rparr>"
  let ?bad = "\<lparr>loadConfig = Returns \<lparr>cfg_data = Some ?cfg, cfg_error = None\<rparr>,
               cronValid = (\<lambda>x. x \<noteq> ''0 */-5 * * * *'')\<rparr>"
  let ?thr = "\<lparr>loadConfig = Throws (newError ''fetch failed''), cronValid = (\<lambda>x. True)\<rparr>"
  have x: "cronExpFor (intervalMins ?cfg) = ''0 */-5 * * * *''"
    by code_simp
  have t: "tracked ?st"
    by (simp add: tracked_def)
  have a: "setupScheduler ?thr ?st = Resolved ?st"
    by (rule reconcile_failure [of ?thr ?st, THEN conjunct2, THEN conjunct1, THEN mp]) simp
  have b: "setupScheduler ?bad ?st = Resolved (stopCron ?st) \<and> armed (stopCron ?st) = []"
    by (rule reconcile_failure [of ?bad ?st, THEN conjunct2, THEN conjunct2, THEN spec,
          of ?cfg, THEN mp]) (simp add: t x)
  from a b show ?thesis by simp
qed

section \<open>Properties of the progress stream\<close>

lemma rust_matches: "topicMatches ''Rust'' \<lparr>ev_topic = Some ''rust '', ev_stage = sg, ev_message = m\<rparr>"
  unfolding topicMatches_def by (simp, code_simp)

lemma go_differs: "\<not> topicMatches ''Rust'' \<lparr>ev_topic = Some ''go'', ev_stage = sg, ev_message = m\<rparr>"
  unfolding topicMatches_def by (simp, code_simp)

lemma substring_differs:
  "\<not> topicMatches ''Rust'' \<lparr>ev_topic = Some ''rust lang'', ev_stage = sg, ev_message = m\<rparr>"
  unfolding topicMatches_def by (simp, code_simp)

text \<open>
  C5: a subscriber is first sent the acknowledgement, whose stage is \<^verbatim>\<open>System\<close>; everything
  after it is, in order, the bus events whose topic equals the subscribed topic once both
  are lower-cased and trimmed, and every such bus event is sent. The comparison is an
  equality: the subscriber to \<^verbatim>\<open>Rust\<close> is sent the event published for \<^verbatim>\<open>"rust "\<close>, not the
  ones published for \<^verbatim>\<open>go\<close> or for \<^verbatim>\<open>rust lang\<close>.
\<close>

theorem stream_subscription:
  "hd (streamProgress tp now bus) = connectedEvent now
   \<and> msg_stage (connectedEvent now) = ''System''
   \<and> tl (streamProgress tp now bus) = map toMessage (filter (\<lambda>tev. topicMatches tp (snd tev)) bus)
   \<and> (\<forall>i < length (tl (streamProgress tp now bus)).
         \<exists>tev \<in> set bus. tl (streamProgress tp now bus) ! i = toMessage tev
           \<and> (\<exists>t. ev_topic (snd tev) = Some t \<and> trim (toLowerCase t) = trim (toLowerCase tp)))
   \<and> (\<forall>tev \<in> set bus. \<forall>t. ev_topic (snd tev) = Some t
           \<and> trim (toLowerCase t) = trim (toLowerCase tp)
         \<longrightarrow> toMessage tev \<in> set (tl (streamProgress tp now bus)))
   \<and> streamProgress ''Rust'' t0
         [(t1, \<lparr>ev_topic = Some ''rust '', ev_stage = ''writing'', ev_message = ''a''\<rparr>),
          (t2, \<lparr>ev_topic = Some ''go'', ev_stage = ''writing'', ev_message = ''b''\<rparr>),
          (t3, \<lparr>ev_topic = Some ''rust lang'', ev_stage = ''writing'', ev_message = ''c''\<rparr>)]
       = [connectedEvent t0, \<lparr>msg_message = ''a'', msg_stage = ''writing'', msg_timestamp = t1\<rparr>]"
proof -
  have fwd: "\<exists>tev \<in> set bus. tl (streamProgress tp now bus) ! i = toMessage tev
           \<and> (\<exists>t. ev_topic (snd tev) = Some t \<and> trim (toLowerCase t) = trim (toLowerCase tp))"
    if "i < length (tl (streamProgress tp now bus))" for i
  proof -
    let ?kept = "filter (\<lambda>tev. topicMatches tp (snd tev)) bus"
    have i: "i < length ?kept" using that by (simp add: streamProgress_def)
    then have "?kept ! i \<in> set ?kept" by (rule nth_mem)
    then have "?kept ! i \<in> set bus" and "topicMatches tp (snd (?kept ! i))" by auto
    moreover have "tl (streamProgress tp now bus) ! i = toMessage (?kept ! i)"
      using i by (simp add: streamProgress_def)
    ultimately show ?thesis
      by (auto simp: topicMatches_def split: option.splits)
  qed
  have bwd: "toMessage tev \<in> set (tl (streamProgress tp now bus))"
    if "tev \<in> set bus" "ev_topic (snd tev) = Some t" "trim (toLowerCase t) = trim (toLowerCase tp)"
    for tev t
    using that by (auto simp: streamProgress_def topicMatches_def)
  have ex: "streamProgress ''Rust'' t0
         [(t1, \<lparr>ev_topic = Some ''rust '', ev_stage = ''writing'', ev_message = ''a''\<rparr>),
          (t2, \<lparr>ev_topic = Some ''go'', ev_stage = ''writing'', ev_message = ''b''\<rparr>),
          (t3, \<lparr>ev_topic = Some ''rust lang'', ev_stage = ''writing'', ev_message = ''c''\<rparr>)]
       = [connectedEvent t0, \<lparr>msg_message = ''a'', msg_stage = ''writing'', msg_timestamp = t1\<rparr>]"
    by (simp add: streamProgress_def toMessage_def rust_matches go_differs substring_differs)
  have basics: "hd (streamProgress tp now bus) = connectedEvent now
     \<and> msg_stage (connectedEvent now) = ''System''
     \<and> tl (streamProgress tp now bus) = map toMessage (filter (\<lambda>tev. topicMatches tp (snd tev)) bus)"
    by (simp add: streamProgress_def connectedEvent_def)
  show ?thesis
    using basics fwd bwd ex by blast
qed

theorem stream_subscription_witness:
  "streamProgress ''Rust'' ''12:00''
      [(''12:01'', \<lparr>ev_topic = Some ''rust '', ev_stage = ''writing'', ev_message = ''a''\<rparr>),
       (''12:02'', \<lparr>ev_topic = Some ''go'', ev_stage = ''writing'', ev_message = ''b''\<rparr>),
       (''12:03'', \<lparr>ev_topic = Some ''rust lang'', ev_stage = ''writing'', ev_message = ''c''\<rparr>)]
     = [connectedEvent ''12:00'',
        \<lparr>msg_message = ''a'', msg_stage = ''writing'', msg_timestamp = ''12:01''\<rparr>]
   \<and> 0 < length (tl (streamProgress ''Rust'' ''12:00''
      [(''12:01'', \<lparr>ev_topic = Some ''rust '', ev_stage = ''writing'', ev_message = ''a''\<rparr>),
       (''12:02'', \<lparr>ev_topic = Some ''go'', ev_stage = ''writing'', ev_message = ''b''\<rparr>),
       (''12:03'', \<lparr>ev_topic = Some ''rust lang'', ev_stage = ''writing'', ev_message = ''c''\<rparr>)]))
   \<and> (\<exists>tev \<in> set
      [(''12:01'', \<lparr>ev_topic = Some ''rust '', ev_stage = ''writing'', ev_message = ''a''\<rparr>),
       (''12:02'', \<lparr>ev_topic = Some ''go'', ev_stage = ''writing'', ev_message = ''b''\<rparr>),
       (''12:03'', \<lparr>ev_topic = Some ''rust lang'', ev_stage = ''writing'', ev_message = ''c''\<rparr>)].
        tl (streamProgress ''Rust'' ''12:00''
      [(''12:01'', \<lparr>ev_topic = Some ''rust '', ev_stage = ''writing'', ev_message = ''a''\<rparr>),
       (''12:02'', \<lparr>ev_topic = Some ''go'', ev_stage = ''writing'', ev_message = ''b''\<rparr>),
       (''12:03'', \<lparr>ev_topic = Some ''rust lang'', ev_stage = ''writing'', ev_message = ''c''\<rparr>)]) ! 0
          = toMessage tev
        \<and> (\<exists>t. ev_topic (snd tev) = Some t \<and> trim (toLowerCase t) = trim (toLowerCase ''Rust'')))"
proof -
  let ?bus = "[(''12:01'', \<lparr>ev_topic = Some ''rust '', ev_stage = ''writing'', ev_message = ''a''\<rparr>),
       (''12:02'', \<lparr>ev_topic = Some ''go'', ev_stage = ''writing'', ev_message = ''b''\<rparr>),
       (''12:03'', \<lparr>ev_topic = Some ''rust lang'', ev_stage = ''writing'', ev_message = ''c''\<rparr>)]"
  note inst = stream_subscription [of "''Rust''" "''12:00''" ?bus "''12:00''" "''12:01''" "''12:02''" "''12:03''"]
  have ex: "streamProgress ''Rust'' ''12:00'' ?bus
     = [connectedEvent ''12:00'',
        \<lparr>msg_message = ''a'', msg_stage = ''writing'', msg_timestamp = ''12:01''\<rparr>]"
    by (rule inst [THEN conjunct2, THEN conjunct2, THEN conjunct2, THEN conjunct2, THEN conjunct2])
  have len: "0 < length (tl (streamProgress ''Rust'' ''12:00'' ?bus))"
    unfolding ex by simp
  have fw: "\<exists>tev \<in> set ?bus. tl (streamProgress ''Rust'' ''12:00'' ?bus) ! 0 = toMessage tev
        \<and> (\<exists>t. ev_topic (snd tev) = Some t \<and> trim (toLowerCase t) = trim (toLowerCase ''Rust''))"
    by (rule inst [THEN conjunct2, THEN conjunct2, THEN conjunct2, THEN conjunct1, THEN spec,
          of 0, THEN mp, OF len])
  from ex len fw show ?thesis by (intro conjI)
qed

section \<open>Properties of the manual trigger\<close>

text \<open>
  C9: whatever the authorization header is (matching the secret, not matching it, or
  absent), \<^verbatim>\<open>triggerAgent\<close> runs the agent on the same state with the same result and answers
  with the same success response; the header only decides whether one line is logged.
\<close>

theorem trigger_ignores_header:
  "snd (triggerAgent cronSecret ha e s) = snd (triggerAgent cronSecret hb e s)
   \<and> snd (triggerAgent cronSecret h e s)
       = (executeAgentRun e s, \<lparr>success = True, resp_message = ''Agent run triggered manually''\<rparr>)
   \<and> (fst (triggerAgent cronSecret h e s) =
        (if \<exists>secret. cronSecret = Some secret \<and> secret \<noteq> [] \<and> h \<noteq> Some (''Bearer '' @ secret)
         then [''Trigger request received without matching CRON_SECRET (could be manual admin trigger)'']
         else []))"
  by (auto simp: triggerAgent_def split: option.splits)

theorem trigger_ignores_header_witness:
  "snd (triggerAgent (Some ''s3cret'') (Some ''Bearer wrong'')
          (sample_agent_env sample_env) (sample_agent_state True))
     = snd (triggerAgent (Some ''s3cret'') (Some ''Bearer s3cret'')
          (sample_agent_env sample_env) (sample_agent_state True))
   \<and> snd (triggerAgent (Some ''s3cret'') None
          (sample_agent_env sample_env) (sample_agent_state True))
     = snd (triggerAgent (Some ''s3cret'') (Some ''Bearer s3cret'')
          (sample_agent_env sample_env) (sample_agent_state True))
   \<and> fst (triggerAgent (Some ''s3cret'') (Some ''Bearer wrong'')
          (sample_agent_env sample_env) (sample_agent_state True))
     = [''Trigger request received without matching CRON_SECRET (could be manual admin trigger)'']
   \<and> fst (triggerAgent (Some ''s3cret'') (Some ''Bearer s3cret'')
          (sample_agent_env sample_env) (sample_agent_state True)) = []"
proof -
  let ?e = "sample_agent_env sample_env"
  let ?s = "sample_agent_state True"
  have a: "snd (triggerAgent (Some ''s3cret'') (Some ''Bearer wrong'') ?e ?s)
             = snd (triggerAgent (Some ''s3cret'') (Some ''Bearer s3cret'') ?e ?s)"
    by (rule trigger_ignores_header [THEN conjunct1])
  have b: "snd (triggerAgent (Some ''s3cret'') None ?e ?s)
             = snd (triggerAgent (Some ''s3cret'') (Some ''Bearer s3cret'') ?e ?s)"
    by (rule trigger_ignores_header [THEN conjunct1])
  have c: "fst (triggerAgent (Some ''s3cret'') (Some ''Bearer wrong'') ?e ?s)
     = [''Trigger request received without matching CRON_SECRET (could be manual admin trigger)'']"
    using trigger_ignores_header
      [of "Some ''s3cret''" None ?e ?s None "Some ''Bearer wrong''", THEN conjunct2, THEN conjunct2]
    by simp
  have d: "fst (triggerAgent (Some ''s3cret'') (Some ''Bearer s3cret'') ?e ?s) = []"
    using trigger_ignores_header
      [of "Some ''s3cret''" None ?e ?s None "Some ''Bearer s3cret''", THEN conjunct2, THEN conjunct2]
    by simp
  from a b c d show ?thesis by (intro conjI)
qed

section \<open>The cleanup pass of the visual stage\<close>

text \<open>
  C3 says that every token that was extracted but not substituted is removed together
  with its trailing annotation, so that no token remains. The cleanup expression of the
  source excludes the letter \<^verbatim>\<open>n\<close> where the substitution expression beside it excludes the
  line feed. On the body \<^verbatim>\<open>"## Views\n[IMAGE_PROMPT_1]: A sunset over mountains"\<close>, whose image
  is not generated, the cleanup therefore stops at the first \<^verbatim>\<open>n\<close> of the annotation and
  leaves \<^verbatim>\<open>nset over mountains\<close> in the text, here and in the stored article of a whole
  run; the substitution expression removes token and annotation. The same class runs
  across line ends when no \<^verbatim>\<open>n\<close> or \<^verbatim>\<open>!\<close> stops it and deletes the paragraph that follows.
  Finally the pass is a single replacement: on \<^verbatim>\<open>[IMAGE_PROMPT_1[IMAGE_PROMPT_2]]\<close> the token 2
  is extracted and removed, and what is left is the token 1.
\<close>

theorem cleanup_cuts_annotation:
  "cleanup ''## Views\<newline>[IMAGE_PROMPT_1]: A sunset over mountains''
     = ''## Views\<newline>nset over mountains''
   \<and> replace_all (fullPlaceholderRegex ''[IMAGE_PROMPT_1]'') [] 0
         ''## Views\<newline>[IMAGE_PROMPT_1]: A sunset over mountains'' = ''## Views\<newline>''
   \<and> map_option content_markdown (db (final (executePipeline sample_env ''T'' None)))
       = Some (Some ''## Views\<newline>nset over mountains'')
   \<and> cleanup ''Intro.\<newline>[IMAGE_PROMPT_4]: A cat\<newline>\<newline>More text.'' = ''Intro.''
   \<and> map placeholder (extractImagePrompts ''[IMAGE_PROMPT_1[IMAGE_PROMPT_2]]'')
       = [''[IMAGE_PROMPT_2]'']
   \<and> cleanup ''[IMAGE_PROMPT_1[IMAGE_PROMPT_2]]'' = ''[IMAGE_PROMPT_1]''"
  by code_simp

section \<open>Properties of the pipeline\<close>

lemma updateArticle_keeps:
  assumes "updateArticle e site upd s = Inr (row, s')"
    and "\<And>a. article_id (upd a) = article_id a" "\<And>a. status (upd a) = status a"
  shows "created i s \<Longrightarrow> created i s'"
    and "errors s' = errors s" and "stages s' = stages s" and "emitted s' = emitted s"
    and "seoData s' = seoData s" and "articleContent s' = articleContent s"
  using assms
  by (auto simp: updateArticle_def created_def stored_status_def split: option.splits)

lemma created_emit [simp]: "created i (emit tp sg m s) = created i s"
  by (simp add: created_def emit_def stored_status_def)

lemma created_pushError [simp]: "created i (pushError x s) = created i s"
  by (simp add: created_def pushError_def stored_status_def)

lemma created_setContent [simp]: "created i (setContent c s) = created i s"
  by (simp add: created_def setContent_def stored_status_def)

lemma stage0_created: "created i s \<Longrightarrow> \<exists>s'. stage0 e tp s = Normal s' \<and> created i s'"
  by (auto simp: stage0_def created_def stored_status_def pushError_def split: outcome.splits)

lemma stage1_created: "created i s \<Longrightarrow> \<exists>s'. stage1 e tp s = Normal s' \<and> created i s'"
  by (auto simp: stage1_def Let_def created_def stored_status_def pushError_def emit_def
      updateArticle_def split: outcome.splits option.splits)

lemma stage3_created: "created i s \<Longrightarrow> \<exists>s'. stage3 e tp s = Normal s' \<and> created i s'"
  by (auto simp: stage3_def Let_def created_def stored_status_def pushError_def emit_def
      updateArticle_def split: outcome.splits option.splits)

lemma stage5_created: "created i s \<Longrightarrow> \<exists>s'. stage5 e tp s = Normal s' \<and> created i s'"
  by (auto simp: stage5_def Let_def created_def stored_status_def pushError_def emit_def
      split: outcome.splits option.splits)

lemma stage6_created: "created i s \<Longrightarrow> \<exists>s'. stage6 e tp s = Normal s' \<and> created i s'"
  by (auto simp: stage6_def Let_def created_def stored_status_def pushError_def emit_def
      updateArticle_def setContent_def split: outcome.splits option.splits)

lemma thumbnail_created: "created i s \<Longrightarrow> created i (thumbnail e tp s)"
  by (auto simp: thumbnail_def created_def stored_status_def updateArticle_def
      split: outcome.splits option.splits)

lemma processImage_created: "created i s \<Longrightarrow> created i (processImage e tp k p rid s)"
  by (auto simp: processImage_def Let_def split: outcome.splits option.splits)

lemma processImages_created: "created i s \<Longrightarrow> created i (final (processImages e tp k ps s))"
  by (induction ps arbitrary: k s) (auto simp: final_def processImage_created split: outcome.splits)

lemma cleanupAndSave_created: "created i s \<Longrightarrow> created i (final (cleanupAndSave e s))"
  by (auto simp: cleanupAndSave_def Let_def final_def created_def stored_status_def
      updateArticle_def setContent_def split: option.splits)

lemma stage4_created: "created i s \<Longrightarrow> \<exists>s'. stage4 e tp s = Normal s' \<and> created i s'"
proof -
  assume c: "created i s"
  let ?s2 = "emit tp ''visualGeneration'' ''Generating related image prompts and assets...''
               (thumbnail e tp s)"
  let ?ps = "take 3 (extractImagePrompts (ac_content (articleContent ?s2)))"
  have c2: "created i ?s2" using c by (simp add: thumbnail_created)
  have "created i (final (andThen (processImages e tp 0 ?ps ?s2) (cleanupAndSave e)))"
  proof (cases "processImages e tp 0 ?ps ?s2")
    case (Normal x)
    then have "created i x"
      using processImages_created [OF c2, of e tp 0 ?ps] by (simp add: final_def)
    then have "created i (final (cleanupAndSave e x))" by (rule cleanupAndSave_created)
    with Normal show ?thesis by (simp add: andThen_def)
  next
    case (Thrown err x)
    then have "created i x"
      using processImages_created [OF c2, of e tp 0 ?ps] by (simp add: final_def)
    with Thrown show ?thesis by (simp add: andThen_def final_def)
  qed
  then show ?thesis
    by (auto simp: stage4_def Let_def final_def split: flow.splits)
qed

lemma stage2_created:
  "created i s \<Longrightarrow>
     (\<exists>s'. stage2 e tp s = Normal s' \<and> created i s')
   \<or> (\<exists>s'. stage2 e tp s = Thrown (newError ''Critical: Writing stage failed'') s' \<and> created i s')"
  by (auto simp: stage2_def Let_def created_def stored_status_def pushError_def emit_def
      updateArticle_def split: outcome.splits option.splits)

lemma markReview_created:
  "created i s \<Longrightarrow>
     (updateFails e UStatusReview = None
        \<and> (\<exists>s'. markReview e tp s = Normal s' \<and> stored_status s' = Some Review))
   \<or> (\<exists>err. updateFails e UStatusReview = Some err \<and> markReview e tp s = Thrown err s)"
  by (auto simp: markReview_def created_def stored_status_def emit_def updateArticle_def
      split: option.splits)


lemma create_pre:
  assumes "createdId e tp a = Some i"
  shows "\<exists>s. createAndSlug e tp a init_pstate = Normal s \<and> created i s \<and> errors s = []
           \<and> lateStages s = [False, False, False, False, False]
           \<and> (\<forall>ev \<in> set (emitted s). ev_stage ev = ''seoResearch'')"
  using assms
  by (auto simp: createdId_def createAndSlug_def Let_def init_pstate_def emit_def created_def
      stored_status_def lateStages_def split: outcome.splits)

lemma stage0_pre:
  assumes "created i s" "errors s = []" "lateStages s = [False, False, False, False, False]"
    "\<forall>ev \<in> set (emitted s). ev_stage ev = ''seoResearch''"
  shows "\<exists>s'. stage0 e tp s = Normal s' \<and> created i s'
           \<and> errors s' = (case assignCategory e tp of
                             Throws err \<Rightarrow> [''Category assignment failed: '' @ rendered err]
                           | Returns _ \<Rightarrow> [])
           \<and> lateStages s' = [False, False, False, False, False]
           \<and> (\<forall>ev \<in> set (emitted s'). ev_stage ev = ''seoResearch'')"
proof (cases "assignCategory e tp")
  case (Returns cid)
  then show ?thesis using assms
    by (auto simp: stage0_def created_def stored_status_def lateStages_def)
next
  case (Throws err)
  then show ?thesis using assms
    by (auto simp: stage0_def created_def stored_status_def lateStages_def pushError_def)
qed

lemma stage1_pre:
  assumes "created i s" "errors s = pre" "lateStages s = [False, False, False, False, False]"
    "\<forall>ev \<in> set (emitted s). ev_stage ev = ''seoResearch''"
  shows "\<exists>s'. stage1 e tp s = Normal s' \<and> created i s'
           \<and> errors s' = pre @ (case seoError e tp of
                                   Some err \<Rightarrow> [''SEO Research failed: '' @ rendered err]
                                 | None \<Rightarrow> [])
           \<and> seoData s' = seoUsed e tp
           \<and> lateStages s' = [False, False, False, False, False]
           \<and> (\<forall>ev \<in> set (emitted s'). ev_stage ev = ''seoResearch'')"
proof (cases "seoResearch e tp")
  case (Throws err)
  then show ?thesis using assms
    by (auto simp: stage1_def Let_def created_def stored_status_def pushError_def emit_def
        lateStages_def seoError_def seoUsed_def)
next
  case (Returns d)
  show ?thesis
  proof (cases "updateFails e USeo")
    case None
    with Returns show ?thesis using assms
      by (auto simp: stage1_def Let_def created_def stored_status_def emit_def
          updateArticle_def lateStages_def seoError_def seoUsed_def)
  next
    case (Some err)
    with Returns show ?thesis using assms
      by (auto simp: stage1_def Let_def created_def stored_status_def pushError_def emit_def
          updateArticle_def lateStages_def seoError_def seoUsed_def)
  qed
qed

lemma head_pre:
  assumes "createdId e tp a = Some i"
  shows "\<exists>s. andThen (andThen (createAndSlug e tp a init_pstate) (stage0 e tp)) (stage1 e tp)
               = Normal s
           \<and> created i s \<and> errors s = earlyErrors e tp \<and> seoData s = seoUsed e tp
           \<and> lateStages s = [False, False, False, False, False]
           \<and> (\<forall>ev \<in> set (emitted s). ev_stage ev = ''seoResearch'')"
proof -
  obtain s1 where s1: "createAndSlug e tp a init_pstate = Normal s1" "created i s1"
    "errors s1 = []" "lateStages s1 = [False, False, False, False, False]"
    "\<forall>ev \<in> set (emitted s1). ev_stage ev = ''seoResearch''"
    using create_pre [OF assms] by blast
  obtain s2 where s2: "stage0 e tp s1 = Normal s2" "created i s2"
    "errors s2 = (case assignCategory e tp of
                    Throws err \<Rightarrow> [''Category assignment failed: '' @ rendered err]
                  | Returns _ \<Rightarrow> [])"
    "lateStages s2 = [False, False, False, False, False]"
    "\<forall>ev \<in> set (emitted s2). ev_stage ev = ''seoResearch''"
    using stage0_pre [OF s1(2-5), of e tp] by blast
  obtain s3 where s3: "stage1 e tp s2 = Normal s3" "created i s3"
    "errors s3 = errors s2 @ (case seoError e tp of
                                   Some err \<Rightarrow> [''SEO Research failed: '' @ rendered err]
                                 | None \<Rightarrow> [])"
    "seoData s3 = seoUsed e tp"
    "lateStages s3 = [False, False, False, False, False]"
    "\<forall>ev \<in> set (emitted s3). ev_stage ev = ''seoResearch''"
    using stage1_pre [OF s2(2) refl s2(4,5), of e tp] by blast
  have "errors s3 = earlyErrors e tp"
    using s3(3) s2(3) by (simp add: earlyErrors_def)
  then show ?thesis
    using s1(1) s2(1) s3 by (simp add: andThen_def)
qed

lemma stage2_fail:
  assumes "seoData s = seoUsed e tp" "writingError e tp = Some werr"
  shows "stage2 e tp s = Thrown (newError ''Critical: Writing stage failed'')
           (pushError (''Writing failed: '' @ rendered werr)
              (emit tp ''writing'' ''Writing comprehensive article content (1200+ words)...'' s))"
  using assms
  by (auto simp: stage2_def Let_def writingError_def emit_def updateArticle_def
      split: outcome.splits option.splits)

lemma stage2_ok:
  assumes "created i s" "seoData s = seoUsed e tp" "writingError e tp = None"
  shows "\<exists>s'. stage2 e tp s = Normal s' \<and> created i s'"
  using assms
  by (auto simp: stage2_def Let_def writingError_def emit_def updateArticle_def created_def
      stored_status_def split: outcome.splits option.splits)

lemma tryBody_writing_fails:
  assumes "createdId e tp a = Some i" "writingError e tp = Some werr"
  shows "\<exists>s. tryBody e tp a = Thrown (newError ''Critical: Writing stage failed'') s
           \<and> created i s
           \<and> errors s = earlyErrors e tp @ [''Writing failed: '' @ rendered werr]
           \<and> lateStages s = [False, False, False, False, False]
           \<and> (\<forall>ev \<in> set (emitted s). ev_stage ev = ''seoResearch'' \<or> ev_stage ev = ''writing'')"
proof -
  obtain s3 where s3:
    "andThen (andThen (createAndSlug e tp a init_pstate) (stage0 e tp)) (stage1 e tp) = Normal s3"
    "created i s3" "errors s3 = earlyErrors e tp" "seoData s3 = seoUsed e tp"
    "lateStages s3 = [False, False, False, False, False]"
    "\<forall>ev \<in> set (emitted s3). ev_stage ev = ''seoResearch''"
    using head_pre [OF assms(1)] by blast
  let ?s4 = "pushError (''Writing failed: '' @ rendered werr)
              (emit tp ''writing'' ''Writing comprehensive article content (1200+ words)...'' s3)"
  have t: "tryBody e tp a = Thrown (newError ''Critical: Writing stage failed'') ?s4"
    unfolding tryBody_def s3(1) using stage2_fail [OF s3(4) assms(2)]
    by (simp add: andThen_def)
  have "created i ?s4" using s3(2) by simp
  moreover have "errors ?s4 = earlyErrors e tp @ [''Writing failed: '' @ rendered werr]"
    using s3(3) by (simp add: pushError_def emit_def)
  moreover have "lateStages ?s4 = [False, False, False, False, False]"
    using s3(5) by (simp add: pushError_def emit_def lateStages_def)
  moreover have "\<forall>ev \<in> set (emitted ?s4). ev_stage ev = ''seoResearch'' \<or> ev_stage ev = ''writing''"
    using s3(6) by (auto simp: pushError_def emit_def)
  ultimately show ?thesis using t by blast
qed

lemma tryBody_writing_ok:
  assumes "createdId e tp a = Some i" "writingError e tp = None"
  shows "(updateFails e UStatusReview = None
            \<and> (\<exists>s. tryBody e tp a = Normal s \<and> stored_status s = Some Review))
       \<or> (\<exists>err s. updateFails e UStatusReview = Some err \<and> tryBody e tp a = Thrown err s
               \<and> created i s)"
proof -
  obtain s3 where s3:
    "andThen (andThen (createAndSlug e tp a init_pstate) (stage0 e tp)) (stage1 e tp) = Normal s3"
    "created i s3" "seoData s3 = seoUsed e tp"
    using head_pre [OF assms(1)] by blast
  obtain s4 where s4: "stage2 e tp s3 = Normal s4" "created i s4"
    using stage2_ok [OF s3(2,3) assms(2)] by blast
  obtain s5 where s5: "stage3 e tp s4 = Normal s5" "created i s5"
    using stage3_created [OF s4(2)] by blast
  obtain s6 where s6: "stage4 e tp s5 = Normal s6" "created i s6"
    using stage4_created [OF s5(2)] by blast
  obtain s7 where s7: "stage5 e tp s6 = Normal s7" "created i s7"
    using stage5_created [OF s6(2)] by blast
  obtain s8 where s8: "stage6 e tp s7 = Normal s8" "created i s8"
    using stage6_created [OF s7(2)] by blast
  have t: "tryBody e tp a = markReview e tp s8"
    unfolding tryBody_def s3(1) by (simp add: andThen_def s4(1) s5(1) s6(1) s7(1) s8(1))
  show ?thesis
    using markReview_created [OF s8(2), of e tp] s8(2) unfolding t by auto
qed

lemma tryBody_no_article:
  assumes "createdId e tp a = None"
  shows "\<exists>err s. tryBody e tp a = Thrown err s \<and> db s = None \<and> result_article s = None"
  using assms
  by (auto simp: tryBody_def createdId_def createAndSlug_def Let_def andThen_def init_pstate_def
      emit_def split: outcome.splits)

lemma catch_created:
  assumes "tryBody e tp a = Thrown err s" "created i s" "i \<noteq> []"
  shows "(updateFails e UStatusDraft = None
           \<and> (\<exists>s'. executePipeline e tp a = Normal s' \<and> stored_status s' = Some Draft
                  \<and> errors s' = errors s @ [''Pipeline failed: '' @ rendered err]
                  \<and> stages s' = stages s \<and> emitted s' = emitted s
                  \<and> result_article s' = result_article s))
       \<or> (\<exists>err'. updateFails e UStatusDraft = Some err' \<and> executePipeline e tp a = Thrown err' s)"
  using assms
  by (auto simp: executePipeline_def has_id_def created_def stored_status_def updateArticle_def
      pushError_def split: option.splits)

text \<open>
  C1, on the text of the claim: the status is not \<^verbatim>\<open>review\<close> whenever no fatal stage
  failed. The only fatal stage is the writing stage. In a run where every stage succeeds
  (all stage flags are set, the writing stage did not fail) and the store refuses the last
  update, the one that sets \<^verbatim>\<open>review\<close>, the exception reaches the top-level \<^verbatim>\<open>catch\<close>, which
  stores \<^verbatim>\<open>draft\<close> and records \<^verbatim>\<open>Pipeline failed: Error: late\<close>.
\<close>

theorem final_update_refused_counterexample:
  "executePipeline review_fails_env ''T'' None
     = Normal (final (executePipeline review_fails_env ''T'' None))
   \<and> createdId review_fails_env ''T'' None = Some ''a1''
   \<and> writingError review_fails_env ''T'' = None
   \<and> seoResearchDone (stages (final (executePipeline review_fails_env ''T'' None)))
   \<and> lateStages (final (executePipeline review_fails_env ''T'' None))
       = [True, True, True, True, True]
   \<and> errors (final (executePipeline review_fails_env ''T'' None))
       = [''Pipeline failed: Error: late'']
   \<and> stored_status (final (executePipeline review_fails_env ''T'' None)) = Some Draft
   \<and> stored_status (final (executePipeline review_fails_env ''T'' None)) \<noteq> Some Review"
  by code_simp

text \<open>
  C1, as amended: when \<^verbatim>\<open>executePipeline\<close> returns for an article that was inserted
  (with a non-empty identifier), the stored status of the Content Record is \<^verbatim>\<open>review\<close> or
  \<^verbatim>\<open>draft\<close>. It is
  \<^verbatim>\<open>review\<close> exactly when the body of the outer \<^verbatim>\<open>try\<close> ran to its end, that is when no
  exception reached the top-level \<^verbatim>\<open>catch\<close>; this is the case exactly when the writing stage
  did not fail and the final update to \<^verbatim>\<open>review\<close> was stored. A failure of the writing
  stage always leaves \<^verbatim>\<open>draft\<close>.
\<close>

theorem pipeline_final_status:
  assumes "executePipeline e tp a = Normal s" and "createdId e tp a = Some i" and "i \<noteq> []"
  shows "(stored_status s = Some Review \<or> stored_status s = Some Draft)
     \<and> (stored_status s = Some Review \<longleftrightarrow> (\<exists>s'. tryBody e tp a = Normal s'))
     \<and> ((\<exists>s'. tryBody e tp a = Normal s')
          \<longleftrightarrow> writingError e tp = None \<and> updateFails e UStatusReview = None)
     \<and> (writingError e tp \<noteq> None \<longrightarrow> stored_status s = Some Draft)"
proof (cases "writingError e tp")
  case (Some werr)
  obtain s4 where t: "tryBody e tp a = Thrown (newError ''Critical: Writing stage failed'') s4"
    and c: "created i s4"
    using tryBody_writing_fails [OF assms(2) Some] by blast
  have "stored_status s = Some Draft"
    using catch_created [OF t c assms(3)] assms(1) by auto
  with t Some show ?thesis by simp
next
  case None
  from tryBody_writing_ok [OF assms(2) None] show ?thesis
  proof
    assume "updateFails e UStatusReview = None
            \<and> (\<exists>s. tryBody e tp a = Normal s \<and> stored_status s = Some Review)"
    then obtain s' where u: "updateFails e UStatusReview = None"
      and t: "tryBody e tp a = Normal s'" and r: "stored_status s' = Some Review" by blast
    have "s = s'" using assms(1) t by (simp add: executePipeline_def)
    with u t r None show ?thesis by simp
  next
    assume "\<exists>err s. updateFails e UStatusReview = Some err \<and> tryBody e tp a = Thrown err s
               \<and> created i s"
    then obtain err s' where u: "updateFails e UStatusReview = Some err"
      and t: "tryBody e tp a = Thrown err s'" and c: "created i s'" by blast
    have "stored_status s = Some Draft"
      using catch_created [OF t c assms(3)] assms(1) by auto
    with u t None show ?thesis by simp
  qed
qed

theorem pipeline_final_status_witness:
  "executePipeline sample_env ''T'' None = Normal (final (executePipeline sample_env ''T'' None))
   \<and> createdId sample_env ''T'' None = Some ''a1'' \<and> ''a1'' \<noteq> []
   \<and> stored_status (final (executePipeline sample_env ''T'' None)) = Some Review
   \<and> executePipeline writing_fails_env ''T'' None
       = Normal (final (executePipeline writing_fails_env ''T'' None))
   \<and> createdId writing_fails_env ''T'' None = Some ''a1''
   \<and> writingError writing_fails_env ''T'' \<noteq> None
   \<and> stored_status (final (executePipeline writing_fails_env ''T'' None)) = Some Draft"
proof -
  have r1: "executePipeline sample_env ''T'' None
              = Normal (final (executePipeline sample_env ''T'' None))"
    by code_simp
  have c1: "createdId sample_env ''T'' None = Some ''a1''"
    by code_simp
  have w1: "writingError sample_env ''T'' = None"
    by code_simp
  have u1: "updateFails sample_env UStatusReview = None"
    by (simp add: sample_env_def)
  have r2: "executePipeline writing_fails_env ''T'' None
              = Normal (final (executePipeline writing_fails_env ''T'' None))"
    by code_simp
  have c2: "createdId writing_fails_env ''T'' None = Some ''a1''"
    by code_simp
  have w2: "writingError writing_fails_env ''T'' \<noteq> None"
    by code_simp
  have n: "''a1'' \<noteq> []" by simp
  have a: "stored_status (final (executePipeline sample_env ''T'' None)) = Some Review"
    using pipeline_final_status [OF r1 c1 n] w1 u1 by blast
  have b: "stored_status (final (executePipeline writing_fails_env ''T'' None)) = Some Draft"
    using pipeline_final_status [OF r2 c2 n] w2 by blast
  from r1 c1 n a r2 c2 w2 b show ?thesis by (intro conjI)
qed

text \<open>
  C2, on the text of the claim: with topic \<^verbatim>\<open>T\<close>, keywords \<^verbatim>\<open>["x"]\<close> and a writer that throws,
  the returned \<^verbatim>\<open>errors\<close> does not hold exactly one entry for the writing failure. The
  \<^verbatim>\<open>catch\<close> of the stage pushes \<^verbatim>\<open>Writing failed: ...\<close> and rethrows, and the top-level \<^verbatim>\<open>catch\<close>
  pushes \<^verbatim>\<open>Pipeline failed: Error: Critical: Writing stage failed\<close>: two entries, both naming
  the writing stage.
\<close>

theorem writing_failure_errors_counterexample:
  "seoResearch writing_fails_env ''T''
     = Returns \<lparr>seo_keywords = [''x''], h2Structure = [\<lparr>h2 = ''Views'', h3s = []\<rparr>],
                 metaDescription = ''m''\<rparr>
   \<and> errors (final (executePipeline writing_fails_env ''T'' None))
       = [''Writing failed: Error: boom'',
          ''Pipeline failed: Error: Critical: Writing stage failed'']
   \<and> length (filter (sublist ''Writing'')
         (errors (final (executePipeline writing_fails_env ''T'' None)))) = 2"
  by code_simp

text \<open>
  C2, as amended: when the article was inserted and the writing stage fails (the writer
  throws, or the store refuses its update), no later stage runs: the flags of writing,
  humanizing, visual generation, interactive and final review stay false and only events
  of the research and writing stages were emitted. When the store accepts the update to
  \<^verbatim>\<open>draft\<close>, the pipeline returns, the Content Record has status \<^verbatim>\<open>draft\<close>, and \<^verbatim>\<open>errors\<close> is:
  the entries of a failed category or research stage (none when both succeeded), then
  \<^verbatim>\<open>Writing failed: <error>\<close>, then \<^verbatim>\<open>Pipeline failed: Error: Critical: Writing stage failed\<close>,
  and nothing for the stages never reached.
\<close>

theorem writing_failure_aborts:
  assumes "createdId e tp a = Some i" and "i \<noteq> []"
    and "writingError e tp = Some werr" and "updateFails e UStatusDraft = None"
  shows "\<exists>s. executePipeline e tp a = Normal s
           \<and> stored_status s = Some Draft
           \<and> errors s = earlyErrors e tp
                @ [''Writing failed: '' @ rendered werr,
                   ''Pipeline failed: Error: Critical: Writing stage failed'']
           \<and> ((\<exists>cid. assignCategory e tp = Returns cid) \<and> seoError e tp = None
                \<longrightarrow> earlyErrors e tp = [])
           \<and> lateStages s = [False, False, False, False, False]
           \<and> (\<forall>ev \<in> set (emitted s). ev_stage ev = ''seoResearch'' \<or> ev_stage ev = ''writing'')"
proof -
  obtain s4 where t: "tryBody e tp a = Thrown (newError ''Critical: Writing stage failed'') s4"
    and c: "created i s4"
    and er: "errors s4 = earlyErrors e tp @ [''Writing failed: '' @ rendered werr]"
    and ls: "lateStages s4 = [False, False, False, False, False]"
    and ev: "\<forall>ev \<in> set (emitted s4). ev_stage ev = ''seoResearch'' \<or> ev_stage ev = ''writing''"
    using tryBody_writing_fails [OF assms(1,3)] by blast
  obtain s where s: "executePipeline e tp a = Normal s" "stored_status s = Some Draft"
    "errors s = errors s4
       @ [''Pipeline failed: '' @ rendered (newError ''Critical: Writing stage failed'')]"
    "stages s = stages s4" "emitted s = emitted s4"
    using catch_created [OF t c assms(2)] assms(4) by auto
  have e0: "(\<exists>cid. assignCategory e tp = Returns cid) \<and> seoError e tp = None
              \<longrightarrow> earlyErrors e tp = []"
    by (auto simp: earlyErrors_def)
  have "errors s = earlyErrors e tp
          @ [''Writing failed: '' @ rendered werr,
             ''Pipeline failed: Error: Critical: Writing stage failed'']"
    using s(3) er by (simp add: newError_def)
  moreover have "lateStages s = [False, False, False, False, False]"
    using ls s(4) by (simp add: lateStages_def)
  ultimately show ?thesis
    using s(1,2,5) ev e0 by auto
qed

theorem writing_failure_aborts_witness:
  "createdId writing_fails_env ''T'' None = Some ''a1'' \<and> ''a1'' \<noteq> []
   \<and> writingError writing_fails_env ''T'' = Some (newError ''boom'')
   \<and> updateFails writing_fails_env UStatusDraft = None
   \<and> (\<exists>s. executePipeline writing_fails_env ''T'' None = Normal s
         \<and> stored_status s = Some Draft
         \<and> errors s = [''Writing failed: Error: boom'',
                        ''Pipeline failed: Error: Critical: Writing stage failed'']
         \<and> lateStages s = [False, False, False, False, False])"
proof -
  have c: "createdId writing_fails_env ''T'' None = Some ''a1''"
    by code_simp
  have n: "''a1'' \<noteq> []" by simp
  have w: "writingError writing_fails_env ''T'' = Some (newError ''boom'')"
    by code_simp
  have u: "updateFails writing_fails_env UStatusDraft = None"
    by code_simp
  have e0: "earlyErrors writing_fails_env ''T'' = []"
    by code_simp
  have r: "rendered (newError ''boom'') = ''Error: boom''"
    by code_simp
  have "\<exists>s. executePipeline writing_fails_env ''T'' None = Normal s
         \<and> stored_status s = Some Draft
         \<and> errors s = [''Writing failed: Error: boom'',
                        ''Pipeline failed: Error: Critical: Writing stage failed'']
         \<and> lateStages s = [False, False, False, False, False]"
    using writing_failure_aborts [OF c n w u] unfolding e0 r by auto
  with c n w u show ?thesis by (intro conjI)
qed

section \<open>Properties of the agent run\<close>

lemma updateRunStatus_status:
  "run_row s = Some r \<Longrightarrow> storeOk e (UpdateRun st) \<Longrightarrow>
   map_option run_status_of (run_row (updateRunStatus e st entry tp aid s)) = Some st"
  by (simp add: updateRunStatus_def Let_def)

lemma updateRunStatus_keeps_status:
  "map_option run_status_of (run_row (updateRunStatus e st entry tp aid s)) = Some Failed \<Longrightarrow>
   st \<noteq> Failed \<Longrightarrow> map_option run_status_of (run_row s) = Some Failed"
  by (auto simp: updateRunStatus_def Let_def split: if_splits option.splits)

lemma updateRunStatus_other [simp]:
  "agent_cfg (updateRunStatus e st entry tp aid s) = agent_cfg s"
  "run_article (updateRunStatus e st entry tp aid s) = run_article s"
  "(run_row (updateRunStatus e st entry tp aid s) = None) = (run_row s = None)"
  by (auto simp: updateRunStatus_def Let_def)

lemma updateRunStatus_ticks:
  "ticks (updateRunStatus e st entry tp aid s)
     = (if st = Completed \<or> st = Failed then ticks s + 2 else ticks s + 1)"
  by (simp add: updateRunStatus_def Let_def)

lemma updateLastRun_row [simp]: "run_row (updateLastRun e s) = run_row s"
  by (simp add: updateLastRun_def)

lemma finalize_completed:
  assumes "run_row s = Some r" "has_id (result_article ps)" "run_status_of r \<noteq> Failed"
  shows "storeOk e (UpdateRun Completed) \<longrightarrow>
           map_option run_status_of (run_row (finalize e tp (Normal ps) s)) = Some Completed
           \<and> map_option run_article_id (run_row (finalize e tp (Normal ps) s))
               = Some (map_option article_id (result_article ps))"
    and "storeOk e UpdateConfig \<and> is_active (agent_cfg s) \<longrightarrow>
           last_run_at (agent_cfg (finalize e tp (Normal ps) s)) = Some (clock e (ticks s + 2))"
    and "map_option run_status_of (run_row (finalize e tp (Normal ps) s)) \<noteq> Some Failed"
  using assms
  by (auto simp: finalize_def Let_def updateRunStatus_def updateLastRun_def has_id_def isTruthy_def
      split: option.splits)

lemma before_finalize:
  assumes "insertRun e = Some rid"
  shows "\<exists>r. run_row (updateRunStatus e Generating entry2 tp2 None
                  (updateRunStatus e Searching entry1 None None
                     (s\<lparr>run_row := Some \<lparr>run_id = rid, run_status_of = Searching,
                                          logs = ''Starting run...'', run_topic = None,
                                          run_article_id = None, completed_at = None\<rparr>\<rparr>))) = Some r
           \<and> run_status_of r \<noteq> Failed"
  by (auto simp: updateRunStatus_def Let_def)

lemma executeAgentRun_unfold:
  assumes "insertRun e = Some rid" "brainstormTopic e = Returns tp"
  shows "\<exists>s3 r. run_row s3 = Some r \<and> run_status_of r \<noteq> Failed
           \<and> agent_cfg s3 = agent_cfg s \<and> ticks s3 = ticks s + 2
           \<and> executeAgentRun e s = finalize e tp (executePipeline (penv e) tp None) s3"
proof -
  let ?s1 = "s\<lparr>run_row := Some \<lparr>run_id = rid, run_status_of = Searching,
                                   logs = ''Starting run...'', run_topic = None,
                                   run_article_id = None, completed_at = None\<rparr>\<rparr>"
  let ?s2 = "updateRunStatus e Searching ''Brainstorming unique tech topic...'' None None ?s1"
  let ?s3 = "updateRunStatus e Generating (''Topic selected: '' @ tp) (Some tp) None ?s2"
  obtain r where r: "run_row ?s3 = Some r" "run_status_of r \<noteq> Failed"
    using before_finalize [OF assms(1)] by blast
  have c: "agent_cfg ?s3 = agent_cfg s" by simp
  have t: "ticks ?s3 = ticks s + 2" by (simp add: updateRunStatus_ticks)
  have x: "executeAgentRun e s = finalize e tp (executePipeline (penv e) tp None) ?s3"
    using assms by (simp add: executeAgentRun_def Let_def)
  from r c t x show ?thesis by blast
qed

lemma finalize_failed_only:
  assumes "run_row s = Some r" "run_status_of r \<noteq> Failed"
    and "map_option run_status_of (run_row (finalize e tp outcome s)) = Some Failed"
  shows "(\<exists>err ps. outcome = Thrown err ps)
       \<or> (\<exists>ps. outcome = Normal ps \<and> \<not> has_id (result_article ps))"
proof (cases outcome)
  case (Thrown err ps)
  then show ?thesis by simp
next
  case (Normal ps)
  show ?thesis
  proof (cases "has_id (result_article ps)")
    case True
    then show ?thesis
      using finalize_completed(3) [OF assms(1) True assms(2), of e tp] assms(3)
      unfolding Normal by blast
  next
    case False
    with Normal show ?thesis by simp
  qed
qed

lemma finalize_rejected:
  assumes "run_row s = Some r" "storeOk e (UpdateRun Failed)"
  shows "map_option run_status_of (run_row (finalize e tp (Thrown err ps) s)) = Some Failed
       \<and> run_article (finalize e tp (Thrown err ps) s) = db ps"
  using assms by (simp add: finalize_def runFailed_def updateRunStatus_def Let_def)

text \<open>
  C10, on the text of the claim: the Run Record is not marked \<^verbatim>\<open>failed\<close> only when no article
  record was created. When the writing stage fails and the store then refuses the update
  to \<^verbatim>\<open>draft\<close>, \<^verbatim>\<open>executePipeline\<close> rejects; the run is marked \<^verbatim>\<open>failed\<close> although the article row
  exists (still \<^verbatim>\<open>processing\<close>). And a completed run under an inactive configuration, as a
  manual trigger can start, does not update the last-run timestamp: the update is
  filtered by \<^verbatim>\<open>is_active = true\<close>.
\<close>

theorem run_failed_with_article_counterexample:
  "map_option run_status_of
      (run_row (executeAgentRun (sample_agent_env revert_fails_env) (sample_agent_state True)))
     = Some Failed
   \<and> map_option article_id
      (run_article (executeAgentRun (sample_agent_env revert_fails_env) (sample_agent_state True)))
     = Some ''a1''
   \<and> map_option status
      (run_article (executeAgentRun (sample_agent_env revert_fails_env) (sample_agent_state True)))
     = Some Processing
   \<and> map_option run_status_of
      (run_row (executeAgentRun (sample_agent_env sample_env) (sample_agent_state False)))
     = Some Completed
   \<and> last_run_at
      (agent_cfg (executeAgentRun (sample_agent_env sample_env) (sample_agent_state False)))
     = None"
  by code_simp

text \<open>
  C10, as amended: for a run whose record was inserted and whose topic was found, whenever
  the pipeline returns an article with an identifier, \<^verbatim>\<open>executeAgentRun\<close> sends the status
  \<^verbatim>\<open>completed\<close> with the article's identifier (stored when the store accepts the update),
  never marks the run \<^verbatim>\<open>failed\<close>, and updates the last-run timestamp of an active
  configuration. This includes the run whose writing stage failed and whose article was
  reverted to \<^verbatim>\<open>draft\<close>. The run is marked \<^verbatim>\<open>failed\<close> only when the pipeline returns no
  article identifier or rejects.
\<close>

theorem agent_run_outcome:
  assumes "insertRun e = Some rid" and "brainstormTopic e = Returns tp"
  shows "(\<forall>ps. executePipeline (penv e) tp None = Normal ps \<and> has_id (result_article ps) \<longrightarrow>
            (storeOk e (UpdateRun Completed) \<longrightarrow>
               map_option run_status_of (run_row (executeAgentRun e s)) = Some Completed
               \<and> map_option run_article_id (run_row (executeAgentRun e s))
                   = Some (map_option article_id (result_article ps)))
            \<and> (storeOk e UpdateConfig \<and> is_active (agent_cfg s) \<longrightarrow>
                 last_run_at (agent_cfg (executeAgentRun e s)) = Some (clock e (ticks s + 4)))
            \<and> map_option run_status_of (run_row (executeAgentRun e s)) \<noteq> Some Failed)
     \<and> (\<forall>i werr. createdId (penv e) tp None = Some i \<and> i \<noteq> []
            \<and> writingError (penv e) tp = Some werr \<and> updateFails (penv e) UStatusDraft = None
            \<and> storeOk e (UpdateRun Completed) \<longrightarrow>
            map_option run_status_of (run_row (executeAgentRun e s)) = Some Completed
            \<and> map_option status (run_article (executeAgentRun e s)) = Some Draft)
     \<and> (map_option run_status_of (run_row (executeAgentRun e s)) = Some Failed \<longrightarrow>
           (\<exists>err ps. executePipeline (penv e) tp None = Thrown err ps)
         \<or> (\<exists>ps. executePipeline (penv e) tp None = Normal ps \<and> \<not> has_id (result_article ps)))"
proof -
  obtain s3 r where s3: "run_row s3 = Some r" "run_status_of r \<noteq> Failed"
    "agent_cfg s3 = agent_cfg s" "ticks s3 = ticks s + 2"
    "executeAgentRun e s = finalize e tp (executePipeline (penv e) tp None) s3"
    using executeAgentRun_unfold [OF assms] by blast
  have a: "(storeOk e (UpdateRun Completed) \<longrightarrow>
               map_option run_status_of (run_row (executeAgentRun e s)) = Some Completed
               \<and> map_option run_article_id (run_row (executeAgentRun e s))
                   = Some (map_option article_id (result_article ps)))
            \<and> (storeOk e UpdateConfig \<and> is_active (agent_cfg s) \<longrightarrow>
                 last_run_at (agent_cfg (executeAgentRun e s)) = Some (clock e (ticks s + 4)))
            \<and> map_option run_status_of (run_row (executeAgentRun e s)) \<noteq> Some Failed"
    if "executePipeline (penv e) tp None = Normal ps" "has_id (result_article ps)" for ps
    using finalize_completed [OF s3(1) that(2) s3(2), of e tp] s3(3,4) that(1)
    unfolding s3(5) by (auto simp: numeral_eq_Suc)
  have b: "map_option run_status_of (run_row (executeAgentRun e s)) = Some Completed
            \<and> map_option status (run_article (executeAgentRun e s)) = Some Draft"
    if hb: "createdId (penv e) tp None = Some i" "i \<noteq> []" "writingError (penv e) tp = Some werr"
       "updateFails (penv e) UStatusDraft = None" "storeOk e (UpdateRun Completed)" for i werr
  proof -
    obtain s4 where t: "tryBody (penv e) tp None
                          = Thrown (newError ''Critical: Writing stage failed'') s4"
      and c: "created i s4"
      using tryBody_writing_fails [OF hb(1,3)] by blast
    obtain ps where ps: "executePipeline (penv e) tp None = Normal ps"
      "stored_status ps = Some Draft" "result_article ps = result_article s4"
      using catch_created [OF t c hb(2)] hb(4) by auto
    have h: "has_id (result_article ps)"
      using c hb(2) ps(3) by (auto simp: created_def has_id_def)
    have "map_option run_status_of (run_row (executeAgentRun e s)) = Some Completed"
      using a [OF ps(1) h] hb(5) by simp
    moreover have "run_article (executeAgentRun e s) = db ps"
      unfolding s3(5) ps(1) using h
      by (simp add: finalize_def Let_def updateLastRun_def)
    ultimately show ?thesis using ps(2) by (simp add: stored_status_def)
  qed
  have c: "(\<exists>err ps. executePipeline (penv e) tp None = Thrown err ps)
         \<or> (\<exists>ps. executePipeline (penv e) tp None = Normal ps \<and> \<not> has_id (result_article ps))"
    if "map_option run_status_of (run_row (executeAgentRun e s)) = Some Failed"
    using finalize_failed_only [OF s3(1,2), of e tp "executePipeline (penv e) tp None"] that
    unfolding s3(5) by simp
  show ?thesis
    using a b c by blast
qed

theorem agent_run_outcome_witness:
  "insertRun (sample_agent_env writing_fails_env) = Some ''run1''
   \<and> brainstormTopic (sample_agent_env writing_fails_env) = Returns ''T''
   \<and> createdId writing_fails_env ''T'' None = Some ''a1''
   \<and> writingError writing_fails_env ''T'' = Some (newError ''boom'')
   \<and> map_option run_status_of
        (run_row (executeAgentRun (sample_agent_env writing_fails_env) (sample_agent_state True)))
       = Some Completed
   \<and> map_option status
        (run_article (executeAgentRun (sample_agent_env writing_fails_env) (sample_agent_state True)))
       = Some Draft
   \<and> last_run_at
        (agent_cfg (executeAgentRun (sample_agent_env sample_env) (sample_agent_state True)))
       = Some ''t4''
   \<and> map_option run_status_of
        (run_row (executeAgentRun (sample_agent_env revert_fails_env) (sample_agent_state True)))
       = Some Failed
   \<and> (\<exists>err ps. executePipeline revert_fails_env ''T'' None = Thrown err ps)"
proof -
  let ?st = "sample_agent_state True"
  let ?W = "sample_agent_env writing_fails_env"
  let ?S = "sample_agent_env sample_env"
  let ?R = "sample_agent_env revert_fails_env"
  have pw: "penv ?W = writing_fails_env" and ps: "penv ?S = sample_env"
    and pr: "penv ?R = revert_fails_env"
    by (simp_all add: sample_agent_env_def)
  have iw: "insertRun ?W = Some ''run1''" and isr: "insertRun ?S = Some ''run1''"
    and ir: "insertRun ?R = Some ''run1''"
    by (simp_all add: sample_agent_env_def)
  have bw: "brainstormTopic ?W = Returns ''T''" by code_simp
  have bs: "brainstormTopic ?S = Returns ''T''" by code_simp
  have br: "brainstormTopic ?R = Returns ''T''" by code_simp
  have ok: "storeOk ?W (UpdateRun Completed)" "storeOk ?S UpdateConfig"
    by (simp_all add: sample_agent_env_def)
  have act: "is_active (agent_cfg ?st)" "ticks ?st = 0"
    by (simp_all add: sample_agent_state_def)
  have c: "createdId writing_fails_env ''T'' None = Some ''a1''" by code_simp
  have n: "''a1'' \<noteq> []" by simp
  have w: "writingError writing_fails_env ''T'' = Some (newError ''boom'')" by code_simp
  have u: "updateFails writing_fails_env UStatusDraft = None" by code_simp
  have x: "map_option run_status_of (run_row (executeAgentRun ?W ?st)) = Some Completed
           \<and> map_option status (run_article (executeAgentRun ?W ?st)) = Some Draft"
    using agent_run_outcome [OF iw bw, of ?st, THEN conjunct2, THEN conjunct1] c n w u ok(1)
    unfolding pw by blast
  have rs: "executePipeline sample_env ''T'' None
              = Normal (final (executePipeline sample_env ''T'' None))" by code_simp
  have hs: "has_id (result_article (final (executePipeline sample_env ''T'' None)))" by code_simp
  have t4: "clock ?S (ticks ?st + 4) = ''t4''" by code_simp
  have y: "last_run_at (agent_cfg (executeAgentRun ?S ?st)) = Some ''t4''"
    using agent_run_outcome [OF isr bs, of ?st, THEN conjunct1] rs hs ok(2) act(1)
    unfolding ps t4 by blast
  have f: "map_option run_status_of (run_row (executeAgentRun ?R ?st)) = Some Failed"
    by code_simp
  have z: "\<exists>err ps. executePipeline revert_fails_env ''T'' None = Thrown err ps"
  proof -
    have "\<not> has_id (result_article ps)
            \<Longrightarrow> executePipeline revert_fails_env ''T'' None \<noteq> Normal ps" for ps
    proof
      assume a: "\<not> has_id (result_article ps)"
        and b: "executePipeline revert_fails_env ''T'' None = Normal ps"
      have "executePipeline revert_fails_env ''T'' None
              = Thrown (newError ''store down'') (final (executePipeline revert_fails_env ''T'' None))"
        by code_simp
      with b show False by simp
    qed
    then show ?thesis
      using agent_run_outcome [OF ir br, of ?st, THEN conjunct2, THEN conjunct2] f
      unfolding pr by blast
  qed
  from iw bw c w x y f z show ?thesis by (intro conjI) simp_all
qed

end
